theory Spec2Isabelle
  imports Main "HOL-Library.Product_Lexorder"
begin

section \<open>JavaScript values and the JSON functions of the runtime\<close>

text \<open>
  Task arguments and task results are JavaScript values. The model has the kinds the
  work queue distinguishes: the primitives, \<^verbatim>\<open>bigint\<close>, functions (known by an
  identity only), arrays, and plain objects as the list of their own enumerable
  properties in enumeration order. Numbers are the integers.
\<close>

datatype jsval =
    JUndefined
  | JNull
  | JBool bool
  | JNumber int
  | JString string
  | JBigInt int
  | JFunction nat
  | JArray "jsval list"
  | JObject "(string \<times> jsval) list"

text \<open>What a \<^verbatim>\<open>throw\<close> carries: the class of the error and its message.\<close>

datatype error = Error string | TypeError string | SyntaxError string

fun typeof :: "jsval \<Rightarrow> string" where
  "typeof JUndefined = ''undefined''"
| "typeof JNull = ''object''"
| "typeof (JBool b) = ''boolean''"
| "typeof (JNumber n) = ''number''"
| "typeof (JString s) = ''string''"
| "typeof (JBigInt n) = ''bigint''"
| "typeof (JFunction f) = ''function''"
| "typeof (JArray xs) = ''object''"
| "typeof (JObject kvs) = ''object''"

text \<open>Truthiness, as \<^verbatim>\<open>if (x)\<close> tests it.\<close>

fun truthy :: "jsval \<Rightarrow> bool" where
  "truthy JUndefined = False"
| "truthy JNull = False"
| "truthy (JBool b) = b"
| "truthy (JNumber n) = (n \<noteq> 0)"
| "truthy (JString s) = (s \<noteq> [])"
| "truthy (JBigInt n) = (n \<noteq> 0)"
| "truthy (JFunction f) = True"
| "truthy (JArray xs) = True"
| "truthy (JObject kvs) = True"

subsection \<open>Decimal text of integers\<close>

fun digits :: "nat \<Rightarrow> string" where
  "digits n = (if n < 10 then [char_of (48 + n)] else digits (n div 10) @ [char_of (48 + n mod 10)])"

definition show_int :: "int \<Rightarrow> string" where
  "show_int i = (if i < 0 then CHR ''-'' # digits (nat (- i)) else digits (nat i))"

subsection \<open>Property order of ordinary objects\<close>

text \<open>
  An object enumerates its array-index keys first, in ascending numeric order, and
  then its other string keys in the order of their creation. \<open>array_index\<close> reads a
  canonical index (\<^verbatim>\<open>"0"\<close>, \<^verbatim>\<open>"17"\<close>, below \<open>2^32 - 1\<close>); \<open>js_set\<close> is the
  assignment \<^verbatim>\<open>ob[k] = v\<close> on the property list: an existing key keeps its place.
\<close>

definition array_index :: "string \<Rightarrow> int option" where
  "array_index k =
     (let n = foldl (\<lambda>n c. 10 * n + (of_char c - 48)) (0::int) k in
      if k \<noteq> [] \<and> list_all (\<lambda>c. 48 \<le> (of_char c :: int) \<and> (of_char c :: int) \<le> 57) k
         \<and> (k = ''0'' \<or> hd k \<noteq> CHR ''0'') \<and> n < 4294967295
      then Some n else None)"

fun insert_property :: "(string \<times> jsval) list \<Rightarrow> string \<Rightarrow> jsval \<Rightarrow> (string \<times> jsval) list" where
  "insert_property [] k v = [(k, v)]"
| "insert_property ((k', v') # kvs) k v =
     (case array_index k of
        None \<Rightarrow> (k', v') # insert_property kvs k v
      | Some i \<Rightarrow>
          (case array_index k' of
             None \<Rightarrow> (k, v) # (k', v') # kvs
           | Some j \<Rightarrow> if i < j then (k, v) # (k', v') # kvs else (k', v') # insert_property kvs k v))"

definition js_set :: "(string \<times> jsval) list \<Rightarrow> string \<Rightarrow> jsval \<Rightarrow> (string \<times> jsval) list" where
  "js_set ob k v =
     (if k \<in> fst ` set ob then map (\<lambda>(k', v'). if k' = k then (k', v) else (k', v')) ob
      else insert_property ob k v)"

subsection \<open>\<^verbatim>\<open>JSON.stringify\<close>\<close>

definition hex_digit :: "nat \<Rightarrow> char" where
  "hex_digit n = (if n < 10 then char_of (48 + n) else char_of (87 + n))"

definition json_escape :: "char \<Rightarrow> string" where
  "json_escape c =
     (if c = CHR 0x22 then [CHR 0x5C, CHR 0x22]
      else if c = CHR 0x5C then [CHR 0x5C, CHR 0x5C]
      else if c = CHR 0x08 then [CHR 0x5C, CHR ''b'']
      else if c = CHR 0x0C then [CHR 0x5C, CHR ''f'']
      else if c = CHR 0x0A then [CHR 0x5C, CHR ''n'']
      else if c = CHR 0x0D then [CHR 0x5C, CHR ''r'']
      else if c = CHR 0x09 then [CHR 0x5C, CHR ''t'']
      else if of_char c < (32::nat)
        then [CHR 0x5C, CHR ''u'', CHR ''0'', CHR ''0'', hex_digit (of_char c div 16), hex_digit (of_char c mod 16)]
      else [c])"

definition QuoteJSONString :: "string \<Rightarrow> string" where
  "QuoteJSONString s = CHR 0x22 # concat (map json_escape s) @ [CHR 0x22]"

fun commas :: "string list \<Rightarrow> string" where
  "commas [] = []"
| "commas [x] = x"
| "commas (x # y # ys) = x @ CHR '','' # commas (y # ys)"

text \<open>
  The text of a value, \<open>None\<close> where \<^verbatim>\<open>JSON.stringify\<close> gives \<^verbatim>\<open>undefined\<close>. In an
  array a value without text is written \<^verbatim>\<open>null\<close>; in an object its property is
  left out. (\<open>JBigInt\<close> is never reached: \<open>JSON_stringify\<close> throws first.)
\<close>

fun SerializeJSONProperty :: "jsval \<Rightarrow> string option"
  and SerializeJSONArray :: "jsval list \<Rightarrow> string list"
  and SerializeJSONObject :: "(string \<times> jsval) list \<Rightarrow> string list" where
  "SerializeJSONProperty JUndefined = None"
| "SerializeJSONProperty JNull = Some ''null''"
| "SerializeJSONProperty (JBool b) = Some (if b then ''true'' else ''false'')"
| "SerializeJSONProperty (JNumber n) = Some (show_int n)"
| "SerializeJSONProperty (JString s) = Some (QuoteJSONString s)"
| "SerializeJSONProperty (JBigInt n) = None"
| "SerializeJSONProperty (JFunction f) = None"
| "SerializeJSONProperty (JArray xs) = Some (CHR ''['' # commas (SerializeJSONArray xs) @ '']'')"
| "SerializeJSONProperty (JObject kvs) = Some (CHR ''{'' # commas (SerializeJSONObject kvs) @ ''}'')"
| "SerializeJSONArray [] = []"
| "SerializeJSONArray (x # xs) =
     (case SerializeJSONProperty x of None \<Rightarrow> ''null'' | Some t \<Rightarrow> t) # SerializeJSONArray xs"
| "SerializeJSONObject [] = []"
| "SerializeJSONObject ((k, v) # kvs) =
     (case SerializeJSONProperty v of
        None \<Rightarrow> SerializeJSONObject kvs
      | Some t \<Rightarrow> (QuoteJSONString k @ CHR '':'' # t) # SerializeJSONObject kvs)"

fun has_bigint :: "jsval \<Rightarrow> bool"
  and has_bigint_list :: "jsval list \<Rightarrow> bool"
  and has_bigint_props :: "(string \<times> jsval) list \<Rightarrow> bool" where
  "has_bigint (JBigInt n) = True"
| "has_bigint (JArray xs) = has_bigint_list xs"
| "has_bigint (JObject kvs) = has_bigint_props kvs"
| "has_bigint JUndefined = False"
| "has_bigint JNull = False"
| "has_bigint (JBool b) = False"
| "has_bigint (JNumber n) = False"
| "has_bigint (JString s) = False"
| "has_bigint (JFunction f) = False"
| "has_bigint_list [] = False"
| "has_bigint_list (x # xs) = (has_bigint x \<or> has_bigint_list xs)"
| "has_bigint_props [] = False"
| "has_bigint_props ((k, v) # kvs) = (has_bigint v \<or> has_bigint_props kvs)"

text \<open>
  \<^verbatim>\<open>JSON.stringify(value)\<close> with no replacer: a \<^verbatim>\<open>bigint\<close> anywhere in the value
  is a \<^verbatim>\<open>TypeError\<close>; \<open>Inr None\<close> is the result \<^verbatim>\<open>undefined\<close>.
\<close>

definition JSON_stringify :: "jsval \<Rightarrow> error + string option" where
  "JSON_stringify v =
     (if has_bigint v then Inl (TypeError ''Do not know how to serialize a BigInt'')
      else Inr (SerializeJSONProperty v))"

subsection \<open>\<^verbatim>\<open>JSON.parse\<close>\<close>

definition is_ws :: "char \<Rightarrow> bool" where
  "is_ws c = (c = CHR '' '' \<or> c = CHR 0x09 \<or> c = CHR 0x0A \<or> c = CHR 0x0D)"

definition skip_ws :: "string \<Rightarrow> string" where
  "skip_ws = dropWhile is_ws"

definition is_digit :: "char \<Rightarrow> bool" where
  "is_digit c = (48 \<le> (of_char c :: nat) \<and> (of_char c :: nat) \<le> 57)"

definition nat_of_digits :: "string \<Rightarrow> nat" where
  "nat_of_digits ds = foldl (\<lambda>n c. 10 * n + (of_char c - 48)) 0 ds"

definition hex_val :: "char \<Rightarrow> nat option" where
  "hex_val c =
     (let n = (of_char c :: nat) in
      if 48 \<le> n \<and> n \<le> 57 then Some (n - 48)
      else if 97 \<le> n \<and> n \<le> 102 then Some (n - 87)
      else if 65 \<le> n \<and> n \<le> 70 then Some (n - 55)
      else None)"

text \<open>A number token; a fraction or an exponent is outside the integers of this model.\<close>

definition parse_number :: "string \<Rightarrow> (jsval \<times> string) option" where
  "parse_number cs =
     (let neg = (cs \<noteq> [] \<and> hd cs = CHR ''-'');
          cs1 = (if neg then tl cs else cs);
          ds = takeWhile is_digit cs1;
          rest = dropWhile is_digit cs1
      in if ds = [] \<or> (length ds > 1 \<and> hd ds = CHR ''0'') then None
         else if rest \<noteq> [] \<and> hd rest \<in> {CHR ''.'', CHR ''e'', CHR ''E''} then None
         else Some (JNumber (if neg then - int (nat_of_digits ds) else int (nat_of_digits ds)), rest))"

definition unescape :: "char \<Rightarrow> char option" where
  "unescape e =
     (if e = CHR 0x22 then Some (CHR 0x22)
      else if e = CHR 0x5C then Some (CHR 0x5C)
      else if e = CHR ''/'' then Some (CHR ''/'')
      else if e = CHR ''b'' then Some (CHR 0x08)
      else if e = CHR ''f'' then Some (CHR 0x0C)
      else if e = CHR ''n'' then Some (CHR 0x0A)
      else if e = CHR ''r'' then Some (CHR 0x0D)
      else if e = CHR ''t'' then Some (CHR 0x09)
      else None)"

text \<open>The characters of a string token after its opening quote, and the rest of the input.\<close>

fun parse_chars :: "string \<Rightarrow> (string \<times> string) option" where
  "parse_chars [] = None"
| "parse_chars [c] = (if c = CHR 0x22 then Some ([], []) else None)"
| "parse_chars (c # e # cs) =
     (if c = CHR 0x22 then Some ([], e # cs)
      else if c = CHR 0x5C then
        (if e = CHR ''u'' then
           (case cs of
              a # b # x # y # r \<Rightarrow>
                (case (hex_val a, hex_val b, hex_val x, hex_val y) of
                   (Some ha, Some hb, Some h, Some l) \<Rightarrow>
                     if ha = 0 \<and> hb = 0
                     then map_option (apfst ((#) (char_of (16 * h + l)))) (parse_chars r)
                     else None
                 | _ \<Rightarrow> None)
            | _ \<Rightarrow> None)
         else
           (case unescape e of
              None \<Rightarrow> None
            | Some ch \<Rightarrow> map_option (apfst ((#) ch)) (parse_chars cs)))
      else if (of_char c :: nat) < 32 then None
      else map_option (apfst ((#) c)) (parse_chars (e # cs)))"

text \<open>
  A recursive-descent reader of values, array elements and object members. Each of
  the three is written over the readers it calls; \<open>parsers n\<close> are the readers that
  may call one another \<open>n\<close> times in a row, and a text needs fewer calls than it has
  characters. The members of an object are assigned in the order of the text.
\<close>

type_synonym 'a parser = "string \<Rightarrow> ('a \<times> string) option"

definition value_step :: "jsval list parser \<Rightarrow> (string \<times> jsval) list parser \<Rightarrow> jsval parser" where
  "value_step elements members cs =
     (let s = skip_ws cs in
      if s = [] then None
      else if hd s = CHR ''{'' then
        (if skip_ws (tl s) \<noteq> [] \<and> hd (skip_ws (tl s)) = CHR ''}''
         then Some (JObject [], tl (skip_ws (tl s)))
         else map_option (apfst (\<lambda>ms. JObject (foldl (\<lambda>ob (k, v). js_set ob k v) [] ms)))
                (members (tl s)))
      else if hd s = CHR ''['' then
        (if skip_ws (tl s) \<noteq> [] \<and> hd (skip_ws (tl s)) = CHR '']''
         then Some (JArray [], tl (skip_ws (tl s)))
         else map_option (apfst JArray) (elements (tl s)))
      else if hd s = CHR 0x22 then map_option (apfst JString) (parse_chars (tl s))
      else if take 4 s = ''null'' then Some (JNull, drop 4 s)
      else if take 4 s = ''true'' then Some (JBool True, drop 4 s)
      else if take 5 s = ''false'' then Some (JBool False, drop 5 s)
      else parse_number s)"

definition elements_step :: "jsval parser \<Rightarrow> jsval list parser \<Rightarrow> jsval list parser" where
  "elements_step val elements cs =
     (case val cs of
        None \<Rightarrow> None
      | Some (v, r) \<Rightarrow>
          (let s = skip_ws r in
           if s = [] then None
           else if hd s = CHR '']'' then Some ([v], tl s)
           else if hd s = CHR '','' then map_option (apfst ((#) v)) (elements (tl s))
           else None))"

definition members_step ::
  "jsval parser \<Rightarrow> (string \<times> jsval) list parser \<Rightarrow> (string \<times> jsval) list parser" where
  "members_step val members cs =
     (let s = skip_ws cs in
      if s = [] \<or> hd s \<noteq> CHR 0x22 then None
      else
        (case parse_chars (tl s) of
           None \<Rightarrow> None
         | Some (k, r) \<Rightarrow>
             (let s1 = skip_ws r in
              if s1 = [] \<or> hd s1 \<noteq> CHR '':'' then None
              else
                (case val (tl s1) of
                   None \<Rightarrow> None
                 | Some (v, r2) \<Rightarrow>
                     (let s2 = skip_ws r2 in
                      if s2 = [] then None
                      else if hd s2 = CHR ''}'' then Some ([(k, v)], tl s2)
                      else if hd s2 = CHR '','' then map_option (apfst ((#) (k, v))) (members (tl s2))
                      else None)))))"

primrec parsers :: "nat \<Rightarrow> jsval parser \<times> jsval list parser \<times> (string \<times> jsval) list parser" where
  "parsers 0 = (\<lambda>cs. None, \<lambda>cs. None, \<lambda>cs. None)"
| "parsers (Suc n) =
     (case parsers n of
        (val, elements, members) \<Rightarrow>
          (value_step elements members, elements_step val elements, members_step val members))"

text \<open>\<^verbatim>\<open>JSON.parse(text)\<close>: the value of the whole text, or a \<^verbatim>\<open>SyntaxError\<close>.\<close>

definition JSON_parse :: "string \<Rightarrow> error + jsval" where
  "JSON_parse text =
     (case fst (parsers (Suc (length text))) text of
        None \<Rightarrow> Inl (SyntaxError ''JSON Parse error'')
      | Some (v, r) \<Rightarrow> if skip_ws r = [] then Inr v else Inl (SyntaxError ''JSON Parse error''))"

section \<open>The storage collaborator: key-value cache and durable queue\<close>

text \<open>
  \<^verbatim>\<open>toUnixSeconds\<close> of DatabaseService.ts: \<^verbatim>\<open>Math.floor(ms / 1000)\<close>, where a
  \<^verbatim>\<open>Date\<close> is first read with \<^verbatim>\<open>getTime()\<close>. Timestamps are integers (milliseconds
  since the epoch on the JavaScript side, seconds in the tables); \<open>div\<close> on \<open>int\<close>
  rounds towards minus infinity, as \<^verbatim>\<open>Math.floor\<close> does.
\<close>

definition toUnixSeconds :: "int \<Rightarrow> int" where
  "toUnixSeconds ms = ms div 1000"

text \<open>
  The \<^verbatim>\<open>expiresAt\<close> parameter of \<^verbatim>\<open>setCache\<close> and \<^verbatim>\<open>addQueuedTask\<close> has the type
  \<^verbatim>\<open>Date | number | null | 'forever'\<close> (and may be left out of \<^verbatim>\<open>addQueuedTask\<close>).
\<close>

datatype expires_arg = ADate int | ANumber int | ANull | AForever | AUndefined

fun expiresAtSeconds :: "expires_arg \<Rightarrow> int option" where
  "expiresAtSeconds (ADate ms) = Some (toUnixSeconds ms)"
| "expiresAtSeconds (ANumber ms) = Some (toUnixSeconds ms)"
| "expiresAtSeconds ANull = None"
| "expiresAtSeconds AForever = None"
| "expiresAtSeconds AUndefined = None"

text \<open>
  A row of \<^verbatim>\<open>queued_tasks\<close> (interface \<^verbatim>\<open>QueuedTaskRecord\<close>). The column \<^verbatim>\<open>id\<close> is
  called \<open>record_id\<close> here, \<open>id\<close> being the identity function of HOL.
\<close>

record QueuedTaskRecord =
  record_id :: int
  task_name :: string
  arguments :: string
  added_at :: int
  expires_at :: "int option"
  priority :: int

text \<open>
  The two tables of migration 22 and 23. \<^verbatim>\<open>key_value_cache\<close> has \<^verbatim>\<open>key\<close> as its
  primary key, so it is a map from the key to the other two columns (\<^verbatim>\<open>value\<close>,
  \<^verbatim>\<open>expires_at\<close>). \<^verbatim>\<open>queued_tasks\<close> is the list of its rows in rowid order;
  \<open>last_rowid\<close> is the AUTOINCREMENT counter, so that an id is never given twice.
\<close>

record DatabaseService =
  key_value_cache :: "string \<rightharpoonup> (string \<times> int option)"
  queued_tasks :: "QueuedTaskRecord list"
  last_rowid :: int

text \<open>
  The condition \<^verbatim>\<open>(expires_at IS NULL OR expires_at > ?)\<close> shared by the queries,
  the parameter being \<^verbatim>\<open>toUnixSeconds(Date.now())\<close>.
\<close>

definition not_expired :: "int option \<Rightarrow> int \<Rightarrow> bool" where
  "not_expired e now = (case e of None \<Rightarrow> True | Some t \<Rightarrow> t > toUnixSeconds now)"

text \<open>
  \<^verbatim>\<open>getCache(key)\<close>: the row selected by key and expiry, then
  \<^verbatim>\<open>record?.value || null\<close>, which also turns an empty text into \<^verbatim>\<open>null\<close>.
\<close>

definition getCache :: "DatabaseService \<Rightarrow> int \<Rightarrow> string \<Rightarrow> string option" where
  "getCache db now k =
     (case key_value_cache db k of
        None \<Rightarrow> None
      | Some (v, e) \<Rightarrow> if not_expired e now then (if v = [] then None else Some v) else None)"

text \<open>
  \<^verbatim>\<open>setCache(key, value, expiresAt)\<close>. The value is \<^verbatim>\<open>JSON.stringify(data)\<close>, which is
  \<^verbatim>\<open>undefined\<close> for some data (\<open>None\<close> here); the source then stores \<^verbatim>\<open>'{}'\<close>.
  \<^verbatim>\<open>INSERT OR REPLACE\<close> overwrites the row of the key.
\<close>

definition setCache :: "DatabaseService \<Rightarrow> string \<Rightarrow> string option \<Rightarrow> expires_arg \<Rightarrow> DatabaseService" where
  "setCache db k v expiresAt =
     (let value = (case v of None \<Rightarrow> ''{}'' | Some t \<Rightarrow> t)
      in db\<lparr>key_value_cache := (key_value_cache db)(k \<mapsto> (value, expiresAtSeconds expiresAt))\<rparr>)"

text \<open>
  \<^verbatim>\<open>addQueuedTask(taskName, argumentsJson, expiresAt, priority)\<close>: one INSERT with
  \<^verbatim>\<open>added_at = toUnixSeconds(Date.now())\<close>; the result is the new row's id.
\<close>

definition addQueuedTask ::
  "DatabaseService \<Rightarrow> int \<Rightarrow> string \<Rightarrow> string \<Rightarrow> expires_arg \<Rightarrow> int \<Rightarrow> int \<times> DatabaseService" where
  "addQueuedTask db now taskName argumentsJson expiresAt prio =
     (let rowid = last_rowid db + 1;
          row = \<lparr>record_id = rowid, task_name = taskName, arguments = argumentsJson,
                 added_at = toUnixSeconds now, expires_at = expiresAtSeconds expiresAt,
                 priority = prio\<rparr>
      in (rowid, db\<lparr>queued_tasks := queued_tasks db @ [row], last_rowid := rowid\<rparr>))"

text \<open>
  \<^verbatim>\<open>ORDER BY priority DESC, added_at ASC\<close>: rows are compared on the pair
  (\<open>- priority\<close>, \<open>added_at\<close>), lexicographically. The query leaves the order of rows
  that agree on both columns open; they come out in rowid order here (a stable sort
  of the table), as they do from the index \<^verbatim>\<open>idx_queued_tasks_priority_added_at\<close>,
  whose entries end in the rowid.
\<close>

definition order_by :: "QueuedTaskRecord \<Rightarrow> int \<times> int" where
  "order_by r = (- priority r, added_at r)"

text \<open>
  \<^verbatim>\<open>extractNextQueuedTask()\<close>: the first row of the ordered, unexpired rows
  (\<^verbatim>\<open>LIMIT 1\<close>), or \<^verbatim>\<open>null\<close>. It is a SELECT: the table is not written.
\<close>

definition extractNextQueuedTask :: "DatabaseService \<Rightarrow> int \<Rightarrow> QueuedTaskRecord option" where
  "extractNextQueuedTask db now =
     (case sort_key order_by (filter (\<lambda>r. not_expired (expires_at r) now) (queued_tasks db)) of
        [] \<Rightarrow> None
      | r # _ \<Rightarrow> Some r)"

text \<open>\<^verbatim>\<open>deleteQueuedTask(id)\<close>: \<^verbatim>\<open>DELETE FROM queued_tasks WHERE id = ?\<close>.\<close>

definition deleteQueuedTask :: "DatabaseService \<Rightarrow> int \<Rightarrow> DatabaseService" where
  "deleteQueuedTask db i = db\<lparr>queued_tasks := filter (\<lambda>r. record_id r \<noteq> i) (queued_tasks db)\<rparr>"

text \<open>The database after the migrations, before anything is stored.\<close>

definition empty_db :: DatabaseService where
  "empty_db = \<lparr>key_value_cache = Map.empty, queued_tasks = [], last_rowid = 0\<rparr>"

section \<open>The work queue: arguments, providers, tasks\<close>

subsection \<open>Argument fingerprint (\<^verbatim>\<open>JsonArguments.hash\<close>)\<close>

text \<open>
  \<^verbatim>\<open>flattenObject\<close>: the \<^verbatim>\<open>for (const i in ob)\<close> loop over the own properties of
  \<open>ob\<close>, with \<open>toReturn\<close> as the accumulator. A property whose \<^verbatim>\<open>typeof\<close> is
  \<^verbatim>\<open>'object'\<close> is flattened and its entries are assigned under \<^verbatim>\<open>i + '.' + x\<close>; any
  other property is assigned as it is. An array has its indices as keys; \<^verbatim>\<open>null\<close>
  has no property. (The function is only ever applied to values whose \<^verbatim>\<open>typeof\<close> is
  \<^verbatim>\<open>'object'\<close>.)
\<close>

definition assign_flat ::
  "string \<Rightarrow> (string \<times> jsval) list \<Rightarrow> (string \<times> jsval) list \<Rightarrow> (string \<times> jsval) list" where
  "assign_flat i flatObject toReturn = foldl (\<lambda>acc (x, v). js_set acc (i @ ''.'' @ x) v) toReturn flatObject"

fun flattenObject :: "jsval \<Rightarrow> (string \<times> jsval) list"
  and flatten_properties :: "(string \<times> jsval) list \<Rightarrow> (string \<times> jsval) list \<Rightarrow> (string \<times> jsval) list"
  and flatten_elements :: "nat \<Rightarrow> jsval list \<Rightarrow> (string \<times> jsval) list \<Rightarrow> (string \<times> jsval) list" where
  "flattenObject (JObject kvs) = flatten_properties kvs []"
| "flattenObject (JArray xs) = flatten_elements 0 xs []"
| "flattenObject JNull = []"
| "flattenObject JUndefined = []"
| "flattenObject (JBool b) = []"
| "flattenObject (JNumber n) = []"
| "flattenObject (JString s) = []"
| "flattenObject (JBigInt n) = []"
| "flattenObject (JFunction f) = []"
| "flatten_properties [] toReturn = toReturn"
| "flatten_properties ((i, v) # rest) toReturn =
     flatten_properties rest
       (if typeof v = ''object'' then assign_flat i (flattenObject v) toReturn else js_set toReturn i v)"
| "flatten_elements n [] toReturn = toReturn"
| "flatten_elements n (v # rest) toReturn =
     flatten_elements (Suc n) rest
       (if typeof v = ''object'' then assign_flat (digits n) (flattenObject v) toReturn
        else js_set toReturn (digits n) v)"

text \<open>
  The replacer given to \<^verbatim>\<open>JSON.stringify\<close> by \<^verbatim>\<open>hash()\<close> and by \<^verbatim>\<open>serialize()\<close>: a
  function becomes \<^verbatim>\<open>null\<close>, a \<^verbatim>\<open>bigint\<close> the string \<^verbatim>\<open>BigInt(n)\<close>, anything else is
  returned as it is.
\<close>

fun replacer :: "jsval \<Rightarrow> jsval" where
  "replacer (JFunction f) = JNull"
| "replacer (JBigInt n) = JString (''BigInt('' @ show_int n @ '')'')"
| "replacer v = v"

text \<open>
  \<^verbatim>\<open>JSON.stringify(value, replacer)\<close> calls the replacer on the value and on every
  property and element below it. This replacer returns arrays and objects as they
  are, so the text is that of the value with the replacer applied to its leaves.
\<close>

fun replaced :: "jsval \<Rightarrow> jsval"
  and replaced_list :: "jsval list \<Rightarrow> jsval list"
  and replaced_props :: "(string \<times> jsval) list \<Rightarrow> (string \<times> jsval) list" where
  "replaced (JArray xs) = JArray (replaced_list xs)"
| "replaced (JObject kvs) = JObject (replaced_props kvs)"
| "replaced JUndefined = replacer JUndefined"
| "replaced JNull = replacer JNull"
| "replaced (JBool b) = replacer (JBool b)"
| "replaced (JNumber n) = replacer (JNumber n)"
| "replaced (JString s) = replacer (JString s)"
| "replaced (JBigInt n) = replacer (JBigInt n)"
| "replaced (JFunction f) = replacer (JFunction f)"
| "replaced_list [] = []"
| "replaced_list (x # xs) = replaced x # replaced_list xs"
| "replaced_props [] = []"
| "replaced_props ((k, v) # kvs) = (k, replaced v) # replaced_props kvs"

definition JSON_stringify_replacer :: "jsval \<Rightarrow> string" where
  "JSON_stringify_replacer v = (case SerializeJSONProperty (replaced v) of None \<Rightarrow> [] | Some text \<Rightarrow> text)"

text \<open>
  \<^verbatim>\<open>hash()\<close>: the SHA-256 digest of the JSON text of the flattened arguments, and
  \<^verbatim>\<open>result.toString()\<close> of the digest's \<^verbatim>\<open>Uint8Array\<close>, its bytes in decimal joined
  by commas. The digest function of \<^verbatim>\<open>@aws-crypto/sha256-js\<close> is the parameter
  \<open>sha256\<close>. (In \<open>JSON_stringify_replacer\<close> the case \<open>None\<close> does not arise here:
  the text of an object or an array always exists.)
\<close>

definition JsonArguments_hash :: "(string \<Rightarrow> nat list) \<Rightarrow> jsval list \<Rightarrow> string" where
  "JsonArguments_hash sha256 args =
     (let flattenedArgs = flattenObject (JArray args);
          jsonArgs = JSON_stringify_replacer (JObject flattenedArgs)
      in commas (map digits (sha256 jsonArgs)))"

text \<open>
  An \<^verbatim>\<open>Arguments\<close> object: the argument tuple and what its \<^verbatim>\<open>hash()\<close> method
  returns (the class is abstract; \<^verbatim>\<open>JsonArguments\<close> is its one subclass here).
\<close>

record Arguments =
  args_values :: "jsval list"
  args_hash :: string

definition JsonArguments :: "(string \<Rightarrow> nat list) \<Rightarrow> jsval list \<Rightarrow> Arguments" where
  "JsonArguments sha256 args = \<lparr>args_values = args, args_hash = JsonArguments_hash sha256 args\<rparr>"

subsection \<open>Provider registry\<close>

text \<open>
  A provider is an object: the name of its class and its identity. The registry is
  the static map of \<^verbatim>\<open>ProviderRepository\<close>; \<^verbatim>\<open>register\<close> binds under
  \<^verbatim>\<open>name || provider.constructor.name\<close>, \<^verbatim>\<open>get\<close> is the lookup.
\<close>

datatype provider = Instance (class_name: string) (object_id: nat)

definition ProviderRepository_register ::
  "(string \<rightharpoonup> provider) \<Rightarrow> provider \<Rightarrow> string option \<Rightarrow> (string \<rightharpoonup> provider)" where
  "ProviderRepository_register providers p name =
     (case name of
        None \<Rightarrow> providers(class_name p \<mapsto> p)
      | Some n \<Rightarrow> if n = [] then providers(class_name p \<mapsto> p) else providers(n \<mapsto> p))"

definition ProviderRepository_get :: "(string \<rightharpoonup> provider) \<Rightarrow> string \<Rightarrow> provider option" where
  "ProviderRepository_get providers type = providers type"

subsection \<open>The state a task runs in\<close>

text \<open>
  An entry of \<^verbatim>\<open>locksMap\<close> is the promise of an execution in flight: still pending,
  or settled with its result while its entry has not been removed yet.
\<close>

datatype promise = Pending | Settled "error + jsval"

text \<open>
  The process state: the database behind the \<^verbatim>\<open>DatabaseService\<close> provider, the
  module-level \<^verbatim>\<open>locksMap\<close>, the provider registry, the clock read by
  \<^verbatim>\<open>Date.now()\<close> (milliseconds), and \<open>world\<close>, everything else a task body can
  read or change.
\<close>

record 'w sys =
  db :: DatabaseService
  locksMap :: "string \<rightharpoonup> promise"
  ProviderRepository :: "string \<rightharpoonup> provider"
  now :: int
  world :: 'w

subsection \<open>Tasks\<close>

datatype Expiry = Date int | forever

text \<open>
  A task body \<^verbatim>\<open>fn(providers, ...args)\<close> is an async function: from the state it
  starts in it settles with a value or an error and leaves a new state, or it never
  settles (\<open>None\<close>). A body may run other tasks.
\<close>

type_synonym 'w body = "provider list \<Rightarrow> jsval list \<Rightarrow> 'w sys \<Rightarrow> ((error + jsval) \<times> 'w sys) option"

record 'w Task =
  constructor_name :: string
  args :: Arguments
  providerNames :: "string list"
  providers :: "provider list"
  fn :: "'w body"
  expiry :: Expiry

text \<open>
  The constructor's first parameter is an \<^verbatim>\<open>Arguments\<close> object or a plain array,
  which it wraps in \<^verbatim>\<open>JsonArguments\<close>.
\<close>

datatype args_parameter = AsArguments Arguments | AsArray "jsval list"

text \<open>\<^verbatim>\<open>this.providerNames.map(name => ...)\<close>: the first name without a binding throws.\<close>

fun resolve_providers :: "(string \<rightharpoonup> provider) \<Rightarrow> string list \<Rightarrow> error + provider list" where
  "resolve_providers registry [] = Inr []"
| "resolve_providers registry (name # names) =
     (case ProviderRepository_get registry name of
        None \<Rightarrow> Inl (Error (''Provider '' @ name @ '' not found''))
      | Some p \<Rightarrow>
          (case resolve_providers registry names of
             Inl e \<Rightarrow> Inl e
           | Inr ps \<Rightarrow> Inr (p # ps)))"

text \<open>
  \<^verbatim>\<open>constructor(args, providerNames, fn)\<close> of \<^verbatim>\<open>Task\<close>, for the subclass named
  \<open>name\<close> (\<^verbatim>\<open>this.constructor.name\<close>). The \<^verbatim>\<open>DatabaseService\<close> lookup comes
  first; the task starts with \<^verbatim>\<open>expiry = 'forever'\<close>. The database found is the
  one of the state, so the task keeps no field for it.
\<close>

definition Task_constructor ::
  "(string \<Rightarrow> nat list) \<Rightarrow> (string \<rightharpoonup> provider) \<Rightarrow> string \<Rightarrow> args_parameter \<Rightarrow> string list \<Rightarrow> 'w body
     \<Rightarrow> error + 'w Task" where
  "Task_constructor sha256 registry name args_in names f =
     (let a = (case args_in of AsArguments x \<Rightarrow> x | AsArray xs \<Rightarrow> JsonArguments sha256 xs) in
      case ProviderRepository_get registry ''DatabaseService'' of
        None \<Rightarrow> Inl (Error ''DatabaseService not found'')
      | Some d \<Rightarrow>
          (case resolve_providers registry names of
             Inl e \<Rightarrow> Inl e
           | Inr ps \<Rightarrow>
               Inr \<lparr>constructor_name = name, args = a, providerNames = names, providers = ps,
                     fn = f, expiry = forever\<rparr>))"

fun expiry_arg :: "Expiry \<Rightarrow> expires_arg" where
  "expiry_arg (Date ms) = ADate ms"
| "expiry_arg forever = AForever"

text \<open>
  \<^verbatim>\<open>run()\<close>. The result is what the call settles with, the state it leaves, and how
  many times this call invoked \<^verbatim>\<open>this.fn\<close> (0 or 1); \<open>None\<close> when the call never
  settles. The key is looked up in the cache; on a miss the entry of \<^verbatim>\<open>locksMap\<close> is
  awaited if there is one (a pending promise is not settled by anything this call
  does); otherwise the body is started, its promise is registered, and when it has
  settled the result is stored and the entry removed (\<^verbatim>\<open>finally\<close>). A cached text
  that does not parse makes \<^verbatim>\<open>JSON.parse\<close> throw out of \<^verbatim>\<open>run()\<close>. Console output is
  not modelled.
\<close>

definition task_key :: "'w Task \<Rightarrow> string" where
  "task_key t = constructor_name t @ '':'' @ args_hash (args t)"

definition run :: "'w Task \<Rightarrow> 'w sys \<Rightarrow> ((error + jsval) \<times> 'w sys \<times> nat) option" where
  "run t s =
     (let key = task_key t in
      case getCache (db s) (now s) key of
        Some cached \<Rightarrow> Some (JSON_parse cached, s, 0)
      | None \<Rightarrow>
          (case locksMap s key of
             Some lock \<Rightarrow> (case lock of Pending \<Rightarrow> None | Settled r \<Rightarrow> Some (r, s, 0))
           | None \<Rightarrow>
               (case fn t (providers t) (args_values (args t)) (s\<lparr>locksMap := (locksMap s)(key \<mapsto> Pending)\<rparr>) of
                  None \<Rightarrow> None
                | Some (Inl e, s') \<Rightarrow> Some (Inl e, s'\<lparr>locksMap := (locksMap s')(key := None)\<rparr>, 1)
                | Some (Inr data, s') \<Rightarrow>
                    (case JSON_stringify data of
                       Inl e \<Rightarrow> Some (Inl e, s'\<lparr>locksMap := (locksMap s')(key := None)\<rparr>, 1)
                     | Inr text \<Rightarrow>
                         Some (Inr data,
                               s'\<lparr>db := setCache (db s') key text (expiry_arg (expiry t)),
                                  locksMap := (locksMap s')(key := None)\<rparr>, 1)))))"

text \<open>
  \<^verbatim>\<open>serialize()\<close>: the record has \<^verbatim>\<open>id: 0\<close>, and \<^verbatim>\<open>expires_at\<close> is
  \<^verbatim>\<open>this.expiry.getTime()\<close>, in milliseconds.
\<close>

definition serialize :: "'w Task \<Rightarrow> int \<Rightarrow> QueuedTaskRecord" where
  "serialize t date_now =
     \<lparr>record_id = 0,
      task_name = constructor_name t,
      arguments = JSON_stringify_replacer (JArray (args_values (args t))),
      added_at = toUnixSeconds date_now,
      expires_at = (case expiry t of forever \<Rightarrow> None | Date ms \<Rightarrow> Some ms),
      priority = 0\<rparr>"

text \<open>
  The reviver of \<^verbatim>\<open>Task.deserialize\<close>: a string that starts with \<^verbatim>\<open>BigInt(\<close> becomes
  \<^verbatim>\<open>BigInt(value.slice(7, -1))\<close>, which throws a \<^verbatim>\<open>SyntaxError\<close> unless the slice is
  an integer literal (blank is zero). Decimal literals are modelled.
\<close>

definition StringToBigInt :: "string \<Rightarrow> int option" where
  "StringToBigInt str =
     (let t = rev (dropWhile is_ws (rev (dropWhile is_ws str)));
          u = (if t \<noteq> [] \<and> (hd t = CHR ''-'' \<or> hd t = CHR ''+'') then tl t else t)
      in if t = [] then Some 0
         else if u = [] \<or> \<not> list_all is_digit u then None
         else Some (if hd t = CHR ''-'' then - int (nat_of_digits u) else int (nat_of_digits u)))"

definition slice_7_minus_1 :: "string \<Rightarrow> string" where
  "slice_7_minus_1 s = butlast (drop 7 s)"

fun reviver :: "jsval \<Rightarrow> error + jsval" where
  "reviver (JString s) =
     (if take 7 s = ''BigInt('' then
        (case StringToBigInt (slice_7_minus_1 s) of
           None \<Rightarrow> Inl (SyntaxError ''Cannot convert to BigInt'')
         | Some n \<Rightarrow> Inr (JBigInt n))
      else Inr (JString s))"
| "reviver v = Inr v"

text \<open>
  \<^verbatim>\<open>JSON.parse(text, reviver)\<close> calls the reviver on every element and property,
  innermost first, and on the whole value last; the first throw ends the walk.
\<close>

fun revived :: "jsval \<Rightarrow> error + jsval"
  and revived_list :: "jsval list \<Rightarrow> error + jsval list"
  and revived_props :: "(string \<times> jsval) list \<Rightarrow> error + (string \<times> jsval) list" where
  "revived (JArray xs) = (case revived_list xs of Inl e \<Rightarrow> Inl e | Inr ys \<Rightarrow> reviver (JArray ys))"
| "revived (JObject kvs) = (case revived_props kvs of Inl e \<Rightarrow> Inl e | Inr ps \<Rightarrow> reviver (JObject ps))"
| "revived JUndefined = reviver JUndefined"
| "revived JNull = reviver JNull"
| "revived (JBool b) = reviver (JBool b)"
| "revived (JNumber n) = reviver (JNumber n)"
| "revived (JString s) = reviver (JString s)"
| "revived (JBigInt n) = reviver (JBigInt n)"
| "revived (JFunction f) = reviver (JFunction f)"
| "revived_list [] = Inr []"
| "revived_list (x # xs) =
     (case revived x of
        Inl e \<Rightarrow> Inl e
      | Inr y \<Rightarrow> (case revived_list xs of Inl e \<Rightarrow> Inl e | Inr ys \<Rightarrow> Inr (y # ys)))"
| "revived_props [] = Inr []"
| "revived_props ((k, v) # kvs) =
     (case revived v of
        Inl e \<Rightarrow> Inl e
      | Inr y \<Rightarrow> (case revived_props kvs of Inl e \<Rightarrow> Inl e | Inr ps \<Rightarrow> Inr ((k, y) # ps)))"

definition JSON_parse_reviver :: "string \<Rightarrow> error + jsval" where
  "JSON_parse_reviver text = (case JSON_parse text of Inl e \<Rightarrow> Inl e | Inr v \<Rightarrow> revived v)"

text \<open>
  The spread \<^verbatim>\<open>...value\<close> of the parsed arguments into the constructor call: the
  elements of an array, the characters of a string, a \<^verbatim>\<open>TypeError\<close> for a value that
  is not iterable.
\<close>

fun spread :: "jsval \<Rightarrow> error + jsval list" where
  "spread (JArray xs) = Inr xs"
| "spread (JString s) = Inr (map (\<lambda>c. JString [c]) s)"
| "spread v = Inl (TypeError ''Spread syntax requires ...iterable[Symbol.iterator] to be a function'')"

text \<open>
  \<^verbatim>\<open>Task.registry\<close> maps a class name to its constructor. A subclass constructor
  reads the provider registry and the clock of the state it is called in, and may
  throw.
\<close>

type_synonym 'w TaskConstructor = "'w sys \<Rightarrow> jsval list \<Rightarrow> error + 'w Task"

definition Task_deserialize ::
  "(string \<rightharpoonup> 'w TaskConstructor) \<Rightarrow> 'w sys \<Rightarrow> QueuedTaskRecord \<Rightarrow> error + 'w Task" where
  "Task_deserialize registry s serialized =
     (case registry (task_name serialized) of
        None \<Rightarrow> Inl (Error (''Task constructor not found: '' @ task_name serialized))
      | Some constructor \<Rightarrow>
          (case JSON_parse_reviver (arguments serialized) of
             Inl e \<Rightarrow> Inl e
           | Inr v \<Rightarrow> (case spread v of Inl e \<Rightarrow> Inl e | Inr xs \<Rightarrow> constructor s xs)))"

subsection \<open>Argument tuples that differ only in functions\<close>


section \<open>The queue drainer\<close>

text \<open>
  \<^verbatim>\<open>runTask(db, record)\<close>: deserialize, run, delete the row \<^verbatim>\<open>record.id\<close>, return the
  result; the \<^verbatim>\<open>catch\<close> deletes the same row and throws the error again.
\<close>

definition runTask ::
  "(string \<rightharpoonup> 'w TaskConstructor) \<Rightarrow> QueuedTaskRecord \<Rightarrow> 'w sys \<Rightarrow> ((error + jsval) \<times> 'w sys) option" where
  "runTask registry record s =
     (case Task_deserialize registry s record of
        Inl e \<Rightarrow> Some (Inl e, s\<lparr>db := deleteQueuedTask (db s) (record_id record)\<rparr>)
      | Inr task \<Rightarrow>
          (case run task s of
             None \<Rightarrow> None
           | Some (Inr result, s', n) \<Rightarrow> Some (Inr result, s'\<lparr>db := deleteQueuedTask (db s') (record_id record)\<rparr>)
           | Some (Inl e, s', n) \<Rightarrow> Some (Inl e, s'\<lparr>db := deleteQueuedTask (db s') (record_id record)\<rparr>)))"

text \<open>
  The \<^verbatim>\<open>while (true)\<close> loop of \<^verbatim>\<open>processQueue\<close>: it ends with \<^verbatim>\<open>break\<close> when nothing
  is extracted, and an error thrown by \<^verbatim>\<open>runTask\<close> leaves the loop and the
  function. The loop need not end (a body may enqueue), so it is a partial
  function: \<open>None\<close> is a drain that never settles.
\<close>

partial_function (option) processQueue_loop ::
  "(string \<rightharpoonup> 'w TaskConstructor) \<Rightarrow> 'w sys \<Rightarrow> ((error + unit) \<times> 'w sys) option" where
  "processQueue_loop registry s =
     (case extractNextQueuedTask (db s) (now s) of
        None \<Rightarrow> Some (Inr (), s)
      | Some record \<Rightarrow>
          (case runTask registry record s of
             None \<Rightarrow> None
           | Some (Inl e, s') \<Rightarrow> Some (Inl e, s')
           | Some (Inr result, s') \<Rightarrow> processQueue_loop registry s'))"

definition processQueue ::
  "(string \<rightharpoonup> 'w TaskConstructor) \<Rightarrow> 'w sys \<Rightarrow> ((error + unit) \<times> 'w sys) option" where
  "processQueue registry s =
     (case ProviderRepository_get (ProviderRepository s) ''DatabaseService'' of
        None \<Rightarrow> Some (Inl (Error ''DatabaseService not found''), s)
      | Some d \<Rightarrow> processQueue_loop registry s)"

text \<open>
  \<^verbatim>\<open>enqueueTask(task)\<close>: the serialized record is inserted, the new row's id is
  logged, and \<^verbatim>\<open>runTask\<close> is called with the serialized record itself.
\<close>

definition enqueueTask ::
  "(string \<rightharpoonup> 'w TaskConstructor) \<Rightarrow> 'w Task \<Rightarrow> 'w sys \<Rightarrow> ((error + jsval) \<times> 'w sys) option" where
  "enqueueTask registry task s =
     (case ProviderRepository_get (ProviderRepository s) ''DatabaseService'' of
        None \<Rightarrow> Some (Inl (Error ''DatabaseService not found''), s)
      | Some d \<Rightarrow>
          (let record = serialize task (now s);
               (new_id, db') = addQueuedTask (db s) (now s) (task_name record) (arguments record)
                                 (case expires_at record of None \<Rightarrow> ANull | Some ms \<Rightarrow> ANumber ms)
                                 (priority record)
           in runTask registry record (s\<lparr>db := db'\<rparr>)))"

declare processQueue_loop.simps [code]

section \<open>Waiting for the relays (\<^verbatim>\<open>WaitForRelaysConnected.ts\<close>)\<close>

text \<open>
  The world of these two tasks: the relay statuses behind the
  \<^verbatim>\<open>RelayStatusesProvider\<close>, which change with time, and a counter of the calls of
  \<^verbatim>\<open>areRelaysConnected()\<close>. Of a \<^verbatim>\<open>RelayInfo\<close> only \<^verbatim>\<open>connected\<close> is read.
\<close>

record relay_world =
  relayStatuses :: "int \<Rightarrow> bool list"
  probe_calls :: nat

definition areRelaysConnected :: "relay_world sys \<Rightarrow> bool" where
  "areRelaysConnected s = list_ex (\<lambda>connected. connected) (relayStatuses (world s) (now s))"

text \<open>The body of \<^verbatim>\<open>CheckRelayStatusTask\<close>, and its constructor with a one-second expiry.\<close>

definition CheckRelayStatus_fn :: "relay_world body" where
  "CheckRelayStatus_fn ps xs s =
     (case ps of
        [] \<Rightarrow> Some (Inl (TypeError ''undefined is not an object''), s)
      | relayStatusesProvider # rest \<Rightarrow>
          Some (Inr (JBool (areRelaysConnected s)),
                s\<lparr>world := (world s)\<lparr>probe_calls := probe_calls (world s) + 1\<rparr>\<rparr>))"

definition CheckRelayStatusTask :: "(string \<Rightarrow> nat list) \<Rightarrow> relay_world sys \<Rightarrow> error + relay_world Task" where
  "CheckRelayStatusTask sha256 s =
     (case Task_constructor sha256 (ProviderRepository s) ''CheckRelayStatusTask'' (AsArray [])
             [''RelayStatusesProvider''] CheckRelayStatus_fn of
        Inl e \<Rightarrow> Inl e
      | Inr t \<Rightarrow> Inr (t\<lparr>expiry := Date (now s + 1000)\<rparr>))"

text \<open>
  The body of \<^verbatim>\<open>WaitForRelaysConnectedTask\<close>: the loop \<^verbatim>\<open>while (count < 5)\<close>. The
  timer of \<^verbatim>\<open>setTimeout(resolve, 1000)\<close> moves the clock by 1000 ms.
\<close>

function WaitForRelaysConnected_loop ::
  "(string \<Rightarrow> nat list) \<Rightarrow> nat \<Rightarrow> relay_world sys \<Rightarrow> ((error + jsval) \<times> relay_world sys) option" where
  "WaitForRelaysConnected_loop sha256 count s =
     (if count < 5 then
        (case CheckRelayStatusTask sha256 s of
           Inl e \<Rightarrow> Some (Inl e, s)
         | Inr task \<Rightarrow>
             (case run task s of
                None \<Rightarrow> None
              | Some (Inl e, s', n) \<Rightarrow> Some (Inl e, s')
              | Some (Inr connected, s', n) \<Rightarrow>
                  if truthy connected then Some (Inr JUndefined, s')
                  else WaitForRelaysConnected_loop sha256 (count + 1) (s'\<lparr>now := now s' + 1000\<rparr>)))
      else Some (Inl (Error ''Relays did not connect in time''), s))"
  by pat_completeness auto
termination
  by (relation "measure (\<lambda>(sha256, count, s). 5 - count)") auto

declare WaitForRelaysConnected_loop.simps [simp del]

definition WaitForRelaysConnected_fn :: "(string \<Rightarrow> nat list) \<Rightarrow> relay_world body" where
  "WaitForRelaysConnected_fn sha256 ps xs s = WaitForRelaysConnected_loop sha256 0 s"

definition WaitForRelaysConnectedTask ::
  "(string \<Rightarrow> nat list) \<Rightarrow> relay_world sys \<Rightarrow> error + relay_world Task" where
  "WaitForRelaysConnectedTask sha256 s =
     (case Task_constructor sha256 (ProviderRepository s) ''WaitForRelaysConnectedTask'' (AsArray [])
             [] (WaitForRelaysConnected_fn sha256) of
        Inl e \<Rightarrow> Inl e
      | Inr t \<Rightarrow> Inr (t\<lparr>expiry := Date 0\<rparr>))"

text \<open>The cache keys of the two tasks: the class name and the fingerprint of no arguments.\<close>

definition CheckRelayStatus_key :: "(string \<Rightarrow> nat list) \<Rightarrow> string" where
  "CheckRelayStatus_key sha256 = ''CheckRelayStatusTask'' @ '':'' @ JsonArguments_hash sha256 []"

definition WaitForRelaysConnected_key :: "(string \<Rightarrow> nat list) \<Rightarrow> string" where
  "WaitForRelaysConnected_key sha256 = ''WaitForRelaysConnectedTask'' @ '':'' @ JsonArguments_hash sha256 []"

text \<open>
  A state in which a poll reaches the probe: the two providers are registered, and
  the key of \<^verbatim>\<open>CheckRelayStatusTask\<close> has no live cache row and nothing in flight.
\<close>

definition poll_ready :: "(string \<Rightarrow> nat list) \<Rightarrow> relay_world sys \<Rightarrow> bool" where
  "poll_ready sha256 s \<longleftrightarrow>
     ProviderRepository s ''DatabaseService'' \<noteq> None \<and>
     ProviderRepository s ''RelayStatusesProvider'' \<noteq> None \<and>
     getCache (db s) (now s) (CheckRelayStatus_key sha256) = None \<and>
     locksMap s (CheckRelayStatus_key sha256) = None"

section \<open>Interleaved calls of \<^verbatim>\<open>run()\<close>\<close>

text \<open>
  Several calls of \<^verbatim>\<open>run()\<close> are in progress at once when one is suspended at an
  \<^verbatim>\<open>await\<close> while another runs. A call is suspended at \<^verbatim>\<open>await this.db.getCache(key)\<close>
  (first until the database answers, then until the call resumes), at
  \<^verbatim>\<open>return await lock\<close>, at \<^verbatim>\<open>await promise\<close>, and at \<^verbatim>\<open>await this.db.setCache(...)\<close>
  (until the database has written, then until the call resumes); between two of
  these points it runs without interruption.
\<close>

datatype pc =
    AwaitGetCache
  | GotCache "string option"
  | AwaitLock nat
  | AwaitBody nat
  | AwaitSetCache nat jsval "string option"
  | StoredCache nat jsval
  | Returned "error + jsval"

text \<open>
  Of the task a call runs, the key and the expiry are what \<^verbatim>\<open>run()\<close> itself uses.
  The body is seen from outside: it is started, and later its promise settles.
\<close>

record call =
  call_key :: string
  call_expiry :: Expiry
  call_pc :: pc

text \<open>
  The process: the database, the clock, \<^verbatim>\<open>locksMap\<close> (from a key to the promise
  registered for it, a promise being known by its number), every body execution
  started so far with its key and the state of its promise, and the calls.
\<close>

record process =
  database :: DatabaseService
  time :: int
  inflight :: "string \<rightharpoonup> nat"
  executions :: "(string \<times> promise) list"
  calls :: "call list"

datatype action =
    Call string Expiry
  | Answer nat
  | Write nat
  | Settle nat "error + jsval"
  | Resume nat
  | Tick int

definition set_pc :: "nat \<Rightarrow> pc \<Rightarrow> process \<Rightarrow> process" where
  "set_pc i p s = s\<lparr>calls := (calls s)[i := (calls s ! i)\<lparr>call_pc := p\<rparr>]\<rparr>"

text \<open>
  The \<^verbatim>\<open>finally\<close> block, \<^verbatim>\<open>locksMap.delete(key)\<close>, followed by the return or the throw
  of the call.
\<close>

definition finally_return :: "nat \<Rightarrow> error + jsval \<Rightarrow> process \<Rightarrow> process" where
  "finally_return i r s =
     set_pc i (Returned r) (s\<lparr>inflight := (inflight s)(call_key (calls s ! i) := None)\<rparr>)"

text \<open>
  What call \<open>i\<close> does when it resumes, up to its next \<^verbatim>\<open>await\<close>; \<open>None\<close> when it
  cannot resume (what it awaits has not happened, or it has returned).
\<close>

definition resume :: "nat \<Rightarrow> process \<Rightarrow> process option" where
  "resume i s =
     (let c = calls s ! i; key = call_key c in
      case call_pc c of
        AwaitGetCache \<Rightarrow> None
      | GotCache cached \<Rightarrow>
          (case cached of
             Some v \<Rightarrow> Some (set_pc i (Returned (JSON_parse v)) s)
           | None \<Rightarrow>
               (case inflight s key of
                  Some lock \<Rightarrow> Some (set_pc i (AwaitLock lock) s)
                | None \<Rightarrow>
                    Some (set_pc i (AwaitBody (length (executions s)))
                           (s\<lparr>executions := executions s @ [(key, Pending)],
                              inflight := (inflight s)(key \<mapsto> length (executions s))\<rparr>))))
      | AwaitLock lock \<Rightarrow>
          (case snd (executions s ! lock) of
             Pending \<Rightarrow> None
           | Settled r \<Rightarrow> Some (set_pc i (Returned r) s))
      | AwaitBody p \<Rightarrow>
          (case snd (executions s ! p) of
             Pending \<Rightarrow> None
           | Settled r \<Rightarrow>
               (case r of
                  Inl e \<Rightarrow> Some (finally_return i (Inl e) s)
                | Inr data \<Rightarrow>
                    (case JSON_stringify data of
                       Inl e \<Rightarrow> Some (finally_return i (Inl e) s)
                     | Inr json \<Rightarrow> Some (set_pc i (AwaitSetCache p data json) s))))
      | AwaitSetCache p data json \<Rightarrow> None
      | StoredCache p data \<Rightarrow> Some (finally_return i (Inr data) s)
      | Returned r \<Rightarrow> None)"

text \<open>
  One event of the process: a new call of \<^verbatim>\<open>run()\<close>, the database answering a
  \<^verbatim>\<open>getCache\<close> or performing a \<^verbatim>\<open>setCache\<close>, a body settling, a suspended call
  resuming, the clock moving on.
\<close>

definition exec :: "action \<Rightarrow> process \<Rightarrow> process option" where
  "exec a s =
     (case a of
        Call key e \<Rightarrow> Some (s\<lparr>calls := calls s @ [\<lparr>call_key = key, call_expiry = e, call_pc = AwaitGetCache\<rparr>]\<rparr>)
      | Answer i \<Rightarrow>
          (if i < length (calls s) \<and> call_pc (calls s ! i) = AwaitGetCache
           then Some (set_pc i (GotCache (getCache (database s) (time s) (call_key (calls s ! i)))) s)
           else None)
      | Write i \<Rightarrow>
          (if i < length (calls s) then
             (case call_pc (calls s ! i) of
                AwaitSetCache p data json \<Rightarrow>
                  Some (set_pc i (StoredCache p data)
                         (s\<lparr>database := setCache (database s) (call_key (calls s ! i)) json
                                           (expiry_arg (call_expiry (calls s ! i)))\<rparr>))
              | _ \<Rightarrow> None)
           else None)
      | Settle p r \<Rightarrow>
          (if p < length (executions s) \<and> snd (executions s ! p) = Pending
           then Some (s\<lparr>executions := (executions s)[p := (fst (executions s ! p), Settled r)]\<rparr>)
           else None)
      | Resume i \<Rightarrow> (if i < length (calls s) then resume i s else None)
      | Tick d \<Rightarrow> (if 0 \<le> d then Some (s\<lparr>time := time s + d\<rparr>) else None))"

fun execs :: "action list \<Rightarrow> process \<Rightarrow> process option" where
  "execs [] s = Some s"
| "execs (a # as) s = (case exec a s of None \<Rightarrow> None | Some s' \<Rightarrow> execs as s')"

text \<open>A process that has just started: empty tables, nothing in flight, no call yet.\<close>

definition fresh_process :: process where
  "fresh_process = \<lparr>database = empty_db, time = 5000, inflight = Map.empty, executions = [], calls = []\<rparr>"

text \<open>The number of executions of bodies with key \<open>k\<close> that have not settled.\<close>

definition executing :: "process \<Rightarrow> string \<Rightarrow> nat" where
  "executing s k = length (filter (\<lambda>x. fst x = k \<and> snd x = Pending) (executions s))"

text \<open>
  The execution a call has started and not finished with: the promise it awaits at
  \<^verbatim>\<open>await promise\<close> and whose entry it will remove in its \<^verbatim>\<open>finally\<close> block.
\<close>

fun owned :: "pc \<Rightarrow> nat option" where
  "owned (AwaitBody p) = Some p"
| "owned (AwaitSetCache p data json) = Some p"
| "owned (StoredCache p data) = Some p"
| "owned AwaitGetCache = None"
| "owned (GotCache cached) = None"
| "owned (AwaitLock lock) = None"
| "owned (Returned r) = None"

text \<open>
  What holds of \<^verbatim>\<open>locksMap\<close> in every state the process reaches: an execution that
  has not settled is the one registered for its key; a call that has started an
  execution finds it registered under its own key until it removes it, and has
  seen it settle before it stores; no two calls have started the same execution.
\<close>

definition registered :: "process \<Rightarrow> bool" where
  "registered s \<longleftrightarrow>
     (\<forall>p < length (executions s).
        snd (executions s ! p) = Pending \<longrightarrow> inflight s (fst (executions s ! p)) = Some p)"

definition owners_registered :: "process \<Rightarrow> bool" where
  "owners_registered s \<longleftrightarrow>
     (\<forall>i < length (calls s). \<forall>p. owned (call_pc (calls s ! i)) = Some p \<longrightarrow>
        p < length (executions s) \<and> fst (executions s ! p) = call_key (calls s ! i)
        \<and> inflight s (call_key (calls s ! i)) = Some p
        \<and> (call_pc (calls s ! i) \<noteq> AwaitBody p \<longrightarrow> snd (executions s ! p) \<noteq> Pending))"

definition owners_distinct :: "process \<Rightarrow> bool" where
  "owners_distinct s \<longleftrightarrow>
     (\<forall>i < length (calls s). \<forall>j < length (calls s). \<forall>p.
        owned (call_pc (calls s ! i)) = Some p \<and> owned (call_pc (calls s ! j)) = Some p \<longrightarrow> i = j)"

definition consistent :: "process \<Rightarrow> bool" where
  "consistent s \<longleftrightarrow> registered s \<and> owners_registered s \<and> owners_distinct s"

section \<open>Concrete states and tasks\<close>

text \<open>
  A database with one cache row and one queue row that both expired at second 5.
\<close>

definition expired_row :: QueuedTaskRecord where
  "expired_row = \<lparr>record_id = 1, task_name = ''T'', arguments = ''[]'', added_at = 1,
                   expires_at = Some 5, priority = 0\<rparr>"

definition expired_db :: DatabaseService where
  "expired_db = \<lparr>key_value_cache = [''T:h'' \<mapsto> (''1'', Some 5)], queued_tasks = [expired_row],
                  last_rowid = 1\<rparr>"


text \<open>
  An idle process: empty tables, nothing in flight, the database registered, the
  clock at 5 s. The world is a counter that the example bodies advance, so that
  every execution of a body leaves a trace.
\<close>

definition idle :: "nat sys" where
  "idle = \<lparr>db = empty_db, locksMap = Map.empty,
            ProviderRepository = [''DatabaseService'' \<mapsto> Instance ''DatabaseService'' 1],
            now = 5000, world = 0\<rparr>"

text \<open>
  Three tasks without arguments and without providers: one whose body resolves to
  \<^verbatim>\<open>undefined\<close> (a task of result type \<^verbatim>\<open>void\<close>), one whose body resolves to 42, one
  whose body throws. They are cached forever.
\<close>

definition example_task :: "string \<Rightarrow> nat body \<Rightarrow> nat Task" where
  "example_task name f =
     \<lparr>constructor_name = name, args = \<lparr>args_values = [], args_hash = ''h''\<rparr>, providerNames = [],
      providers = [], fn = f, expiry = forever\<rparr>"

definition void_task :: "nat Task" where
  "void_task = example_task ''VoidTask'' (\<lambda>ps xs s. Some (Inr JUndefined, s\<lparr>world := world s + 1\<rparr>))"

definition answer_task :: "nat Task" where
  "answer_task = example_task ''AnswerTask'' (\<lambda>ps xs s. Some (Inr (JNumber 42), s\<lparr>world := world s + 1\<rparr>))"

definition failing_task :: "nat Task" where
  "failing_task = example_task ''FailingTask'' (\<lambda>ps xs s. Some (Inl (Error ''boom''), s\<lparr>world := world s + 1\<rparr>))"


text \<open>
  The constructors of the example classes, as \<^verbatim>\<open>Task.deserialize\<close> calls them: they
  declare no provider, and the registry of constructors holds the three classes.
\<close>

definition example_constructor :: "string \<Rightarrow> nat body \<Rightarrow> nat TaskConstructor" where
  "example_constructor name f s xs =
     Task_constructor (\<lambda>jsonArgs. []) (ProviderRepository s) name
       (AsArguments \<lparr>args_values = xs, args_hash = ''h''\<rparr>) [] f"

definition example_registry :: "string \<rightharpoonup> nat TaskConstructor" where
  "example_registry =
     [''VoidTask'' \<mapsto> example_constructor ''VoidTask'' (fn void_task),
      ''AnswerTask'' \<mapsto> example_constructor ''AnswerTask'' (fn answer_task),
      ''FailingTask'' \<mapsto> example_constructor ''FailingTask'' (fn failing_task)]"

text \<open>
  What a call of the drainer settles with, the queue it leaves and the world it
  leaves.
\<close>

definition outcome :: "((error + 'a) \<times> 'w sys) option \<Rightarrow> ((error + 'a) \<times> QueuedTaskRecord list \<times> 'w) option" where
  "outcome x = (case x of None \<Rightarrow> None | Some (r, s) \<Rightarrow> Some (r, queued_tasks (db s), world s))"

text \<open>
  The idle process with two rows queued: one names a class that is not registered,
  the one behind it is an \<^verbatim>\<open>AnswerTask\<close>.
\<close>

definition two_queued :: "nat sys" where
  "two_queued =
     idle\<lparr>db := snd (addQueuedTask (snd (addQueuedTask empty_db 1000 ''Unknown'' ''[]'' ANull 0))
                         2000 ''AnswerTask'' ''[]'' ANull 0)\<rparr>"

text \<open>The idle process with one \<^verbatim>\<open>FailingTask\<close> queued.\<close>

definition failing_queued :: "nat sys" where
  "failing_queued = idle\<lparr>db := snd (addQueuedTask empty_db 1000 ''FailingTask'' ''[]'' ANull 0)\<rparr>"

text \<open>
  A stand-in for the digest function, which the model takes as a parameter: the
  bytes of the text itself.
\<close>

definition plain_digest :: "string \<Rightarrow> nat list" where
  "plain_digest jsonArgs = map of_char jsonArgs"

text \<open>
  Two processes for the relay tasks, started at 5.5 s with both providers
  registered: in the first a relay connects at 7.5 s, in the second none ever does.
\<close>

definition relay_process :: "(int \<Rightarrow> bool list) \<Rightarrow> relay_world sys" where
  "relay_process statuses =
     \<lparr>db = empty_db, locksMap = Map.empty,
      ProviderRepository = [''DatabaseService'' \<mapsto> Instance ''DatabaseService'' 1,
                            ''RelayStatusesProvider'' \<mapsto> Instance ''RelayStatusesProvider'' 2],
      now = 5500, world = \<lparr>relayStatuses = statuses, probe_calls = 0\<rparr>\<rparr>"

definition relays_connecting :: "relay_world sys" where
  "relays_connecting = relay_process (\<lambda>t. [False, 7500 \<le> t])"

definition relays_down :: "relay_world sys" where
  "relays_down = relay_process (\<lambda>t. [False, False])"

text \<open>
  Two calls of \<^verbatim>\<open>run()\<close> on the same task. The first call misses the cache and starts
  the body. While the body executes, the second call is made and its \<^verbatim>\<open>getCache\<close> is
  issued. The body resolves to 42 and the first call issues its \<^verbatim>\<open>setCache\<close>. The
  database answers the lookup of the second call (a miss), then writes the row of
  the first; the first call resumes, removes its entry of \<^verbatim>\<open>locksMap\<close> and returns.
  Only then does the second call resume from its \<^verbatim>\<open>await\<close>, with the miss it was
  answered.
\<close>

definition late_resume :: "action list" where
  "late_resume =
     [Call ''T:h'' forever, Answer 0, Resume 0,
      Call ''T:h'' forever,
      Settle 0 (Inr (JNumber 42)), Resume 0,
      Answer 1, Write 0, Resume 0,
      Resume 1]"

text \<open>
  The same two calls when the second is answered and resumes while the body of the
  first is still executing.
\<close>

definition prompt_resume :: "action list" where
  "prompt_resume =
     [Call ''T:h'' forever, Answer 0, Resume 0,
      Call ''T:h'' forever, Answer 1, Resume 1,
      Settle 0 (Inr (JNumber 42)), Resume 0, Write 0, Resume 0,
      Resume 1]"

text \<open>
  Two calls that share one execution whose body resolves to a \<^verbatim>\<open>bigint\<close>.
\<close>

definition bigint_result :: "action list" where
  "bigint_result =
     [Call ''T:h'' forever, Answer 0, Resume 0,
      Call ''T:h'' forever, Answer 1, Resume 1,
      Settle 0 (Inr (JBigInt 1)), Resume 0, Resume 1]"

text \<open>What is seen of a process: how many bodies were started, and where each call is.\<close>

definition observe :: "process option \<Rightarrow> (nat \<times> pc list) option" where
  "observe x = (case x of None \<Rightarrow> None | Some s \<Rightarrow> Some (length (executions s), map call_pc (calls s)))"

section \<open>Expired rows are not handed out\<close>

lemma toUnixSeconds_mono: "t \<le> t' \<Longrightarrow> toUnixSeconds t \<le> toUnixSeconds t'"
  by (simp add: toUnixSeconds_def zdiv_mono1)

lemma extractNext_Some_iff:
  "extractNextQueuedTask d t = Some r \<longleftrightarrow>
     (\<exists>rs. sort_key order_by (filter (\<lambda>r. not_expired (expires_at r) t) (queued_tasks d)) = r # rs)"
  by (auto simp: extractNextQueuedTask_def split: list.splits)

lemma extractNext_in_live:
  assumes "extractNextQueuedTask d t = Some r"
  shows "r \<in> set (queued_tasks d) \<and> not_expired (expires_at r) t"
proof -
  let ?live = "filter (\<lambda>r. not_expired (expires_at r) t) (queued_tasks d)"
  from assms obtain rs where "sort_key order_by ?live = r # rs"
    by (auto simp: extractNext_Some_iff)
  then have "r \<in> set (sort_key order_by ?live)" by simp
  then have "r \<in> set ?live" by simp
  then show ?thesis by simp
qed

text \<open>
  C4. A cache row or a queue row whose \<open>expires_at\<close> is a timestamp that is not
  after the current second is never the answer of \<open>getCache\<close> (the lookup of
  \<^verbatim>\<open>run()\<close>) or of \<open>extractNextQueuedTask\<close>; no sweep is involved, the rows are
  still in the tables.
\<close>

theorem expired_rows_never_returned:
  "(key_value_cache d k = Some (v, Some e) \<and> e \<le> toUnixSeconds t \<longrightarrow> getCache d t k = None) \<and>
   (r \<in> set (queued_tasks d) \<and> expires_at r = Some e \<and> e \<le> toUnixSeconds t
      \<longrightarrow> extractNextQueuedTask d t \<noteq> Some r)"
proof (intro conjI impI)
  assume "key_value_cache d k = Some (v, Some e) \<and> e \<le> toUnixSeconds t"
  then show "getCache d t k = None"
    by (simp add: getCache_def not_expired_def)
next
  assume a: "r \<in> set (queued_tasks d) \<and> expires_at r = Some e \<and> e \<le> toUnixSeconds t"
  show "extractNextQueuedTask d t \<noteq> Some r"
  proof
    assume "extractNextQueuedTask d t = Some r"
    then have "not_expired (expires_at r) t" by (simp add: extractNext_in_live)
    with a show False by (simp add: not_expired_def)
  qed
qed

theorem expired_rows_never_returned_witness:
  "key_value_cache expired_db ''T:h'' = Some (''1'', Some 5) \<and> (5::int) \<le> toUnixSeconds 10000
   \<and> expired_row \<in> set (queued_tasks expired_db) \<and> expires_at expired_row = Some 5
   \<and> getCache expired_db 10000 ''T:h'' = None
   \<and> extractNextQueuedTask expired_db 10000 \<noteq> Some expired_row"
  using expired_rows_never_returned [of expired_db "''T:h''" "''1''" 5 10000 expired_row]
  by (simp add: expired_db_def expired_row_def toUnixSeconds_def)

section \<open>The order of the durable queue\<close>








section \<open>The hidden dependency of the constructor\<close>

lemma resolve_providers_error:
  "resolve_providers registry names = Inl e \<Longrightarrow> e \<noteq> Error ''DatabaseService not found''"
  by (induction names) (auto simp: ProviderRepository_get_def split: option.splits sum.splits)

text \<open>
  C10. Constructing a task throws \<^verbatim>\<open>DatabaseService not found\<close> exactly when no
  provider is bound to the name \<^verbatim>\<open>DatabaseService\<close>, whatever the declared provider
  names are: without the binding the error is this one even if a declared provider
  is missing as well, since the lookup comes first.
\<close>

theorem Task_constructor_DatabaseService:
  "(Task_constructor sha256 registry name a names f = Inl (Error ''DatabaseService not found''))
     = (ProviderRepository_get registry ''DatabaseService'' = None)"
  by (auto simp: Task_constructor_def Let_def dest: resolve_providers_error
      split: option.splits sum.splits)

section \<open>Memoization and failure isolation of \<^verbatim>\<open>run()\<close>\<close>


lemma getCache_miss_later:
  assumes "getCache d t k = None" and "key_value_cache d' k = key_value_cache d k" and "t \<le> t'"
  shows "getCache d' t' k = None"
  using assms toUnixSeconds_mono [OF assms(3)]
  by (auto simp: getCache_def not_expired_def split: option.splits if_splits)



lemma run_miss:
  assumes "getCache (db s) (now s) (task_key t) = None" and "locksMap s (task_key t) = None"
  shows "run t s =
     (case fn t (providers t) (args_values (args t)) (s\<lparr>locksMap := (locksMap s)(task_key t \<mapsto> Pending)\<rparr>) of
        None \<Rightarrow> None
      | Some (Inl e, s') \<Rightarrow> Some (Inl e, s'\<lparr>locksMap := (locksMap s')(task_key t := None)\<rparr>, 1)
      | Some (Inr data, s') \<Rightarrow>
          (case JSON_stringify data of
             Inl e \<Rightarrow> Some (Inl e, s'\<lparr>locksMap := (locksMap s')(task_key t := None)\<rparr>, 1)
           | Inr text \<Rightarrow>
               Some (Inr data,
                     s'\<lparr>db := setCache (db s') (task_key t) text (expiry_arg (expiry t)),
                        locksMap := (locksMap s')(task_key t := None)\<rparr>, 1)))"
  using assms by (simp add: run_def Let_def)






text \<open>
  C3. A call that misses the cache, finds nothing in flight and whose body throws
  \<open>e\<close> settles with \<open>e\<close>; the state it leaves is the one the body left, without
  the entry of \<^verbatim>\<open>locksMap\<close>: \<^verbatim>\<open>run()\<close> has written no cache row. If the body itself left
  the row of the key alone, the next call invokes the body again: it settles only if
  the body does, and then with one invocation.
\<close>

theorem run_body_throws:
  assumes "getCache (db s) (now s) (task_key t) = None"
    and "locksMap s (task_key t) = None"
    and "fn t (providers t) (args_values (args t)) (s\<lparr>locksMap := (locksMap s)(task_key t \<mapsto> Pending)\<rparr>)
           = Some (Inl e, s')"
    and "key_value_cache (db s') (task_key t) = key_value_cache (db s) (task_key t)"
    and "now s \<le> now s'"
  shows "let s2 = s'\<lparr>locksMap := (locksMap s')(task_key t := None)\<rparr> in
         run t s = Some (Inl e, s2, 1) \<and> db s2 = db s'
         \<and> key_value_cache (db s2) (task_key t) = key_value_cache (db s) (task_key t)
         \<and> locksMap s2 (task_key t) = None
         \<and> (case fn t (providers t) (args_values (args t)) (s2\<lparr>locksMap := (locksMap s2)(task_key t \<mapsto> Pending)\<rparr>) of
              None \<Rightarrow> run t s2 = None
            | Some (r, s3) \<Rightarrow> (\<exists>r' s4. run t s2 = Some (r', s4, 1)))"
proof -
  let ?k = "task_key t"
  let ?s2 = "s'\<lparr>locksMap := (locksMap s')(?k := None)\<rparr>"
  have first: "run t s = Some (Inl e, ?s2, 1)"
    using assms(1,2,3) by (simp add: run_miss)
  have miss: "getCache (db ?s2) (now ?s2) ?k = None"
    using getCache_miss_later [OF assms(1), of "db s'" "now s'"] assms(4,5) by simp
  have free: "locksMap ?s2 ?k = None" by simp
  have again: "case fn t (providers t) (args_values (args t)) (?s2\<lparr>locksMap := (locksMap ?s2)(?k \<mapsto> Pending)\<rparr>) of
              None \<Rightarrow> run t ?s2 = None
            | Some (r, s3) \<Rightarrow> (\<exists>r' s4. run t ?s2 = Some (r', s4, 1))"
    unfolding run_miss [OF miss free]
    by (auto split: option.splits sum.splits prod.splits)
  from first again assms(4) show ?thesis
    by (simp add: Let_def)
qed

theorem run_body_throws_witness:
  "(\<exists>s2. run failing_task idle = Some (Inl (Error ''boom''), s2, 1)
      \<and> key_value_cache (db s2) (task_key failing_task) = None
      \<and> locksMap s2 (task_key failing_task) = None
      \<and> (\<exists>r' s4. run failing_task s2 = Some (r', s4, 1)))"
proof -
  let ?k = "task_key failing_task"
  let ?s' = "idle\<lparr>locksMap := (locksMap idle)(?k \<mapsto> Pending), world := 1\<rparr>"
  have h: "getCache (db idle) (now idle) ?k = None" "locksMap idle ?k = None"
    "fn failing_task (providers failing_task) (args_values (args failing_task))
       (idle\<lparr>locksMap := (locksMap idle)(?k \<mapsto> Pending)\<rparr>) = Some (Inl (Error ''boom''), ?s')"
    "key_value_cache (db ?s') ?k = key_value_cache (db idle) ?k" "now idle \<le> now ?s'"
    by (simp_all add: failing_task_def example_task_def idle_def empty_db_def getCache_def)
  have "key_value_cache (db idle) ?k = None" by (simp add: idle_def empty_db_def)
  with run_body_throws [OF h] show ?thesis
    by (auto simp: Let_def failing_task_def example_task_def)
qed

section \<open>Draining the queue\<close>

lemma deleteQueuedTask_gone:
  "i \<notin> record_id ` set (queued_tasks (deleteQueuedTask d i))"
  by (auto simp: deleteQueuedTask_def)

lemma runTask_deserialize_throws:
  "Task_deserialize registry s queued = Inl e
     \<Longrightarrow> runTask registry queued s = Some (Inl e, s\<lparr>db := deleteQueuedTask (db s) (record_id queued)\<rparr>)"
  by (simp add: runTask_def)

lemma runTask_run_throws:
  "Task_deserialize registry s queued = Inr task \<Longrightarrow> run task s = Some (Inl e, s', n)
     \<Longrightarrow> runTask registry queued s = Some (Inl e, s'\<lparr>db := deleteQueuedTask (db s') (record_id queued)\<rparr>)"
  by (simp add: runTask_def)

lemma processQueue_loop_throws:
  "extractNextQueuedTask (db s) (now s) = Some queued \<Longrightarrow> runTask registry queued s = Some (Inl e, s')
     \<Longrightarrow> processQueue_loop registry s = Some (Inl e, s')"
  by (subst processQueue_loop.simps) simp

text \<open>
  C6 (amended). When the record that a drain pass extracts cannot be deserialized,
  or its \<^verbatim>\<open>run()\<close> throws, \<^verbatim>\<open>runTask\<close> deletes the record and throws the error again;
  \<^verbatim>\<open>processQueue\<close> does not catch it: the pass ends there and \<^verbatim>\<open>processQueue\<close>
  rejects with that error, in the state of the failed attempt without the record.
  The records behind it are not extracted in this pass.
\<close>

theorem processQueue_stops_at_failure:
  "(ProviderRepository_get (ProviderRepository s) ''DatabaseService'' = Some d
      \<and> extractNextQueuedTask (db s) (now s) = Some queued
      \<and> Task_deserialize registry s queued = Inl e
      \<longrightarrow> processQueue registry s = Some (Inl e, s\<lparr>db := deleteQueuedTask (db s) (record_id queued)\<rparr>))
   \<and> (ProviderRepository_get (ProviderRepository s) ''DatabaseService'' = Some d
      \<and> extractNextQueuedTask (db s) (now s) = Some queued
      \<and> Task_deserialize registry s queued = Inr task \<and> run task s = Some (Inl e, s', n)
      \<longrightarrow> processQueue registry s = Some (Inl e, s'\<lparr>db := deleteQueuedTask (db s') (record_id queued)\<rparr>))
   \<and> record_id queued \<notin> record_id ` set (queued_tasks (deleteQueuedTask (db s') (record_id queued)))"
proof (intro conjI impI)
  assume a: "ProviderRepository_get (ProviderRepository s) ''DatabaseService'' = Some d
      \<and> extractNextQueuedTask (db s) (now s) = Some queued
      \<and> Task_deserialize registry s queued = Inl e"
  then have "runTask registry queued s = Some (Inl e, s\<lparr>db := deleteQueuedTask (db s) (record_id queued)\<rparr>)"
    by (simp add: runTask_deserialize_throws)
  with a show "processQueue registry s = Some (Inl e, s\<lparr>db := deleteQueuedTask (db s) (record_id queued)\<rparr>)"
    by (simp add: processQueue_def processQueue_loop_throws)
next
  assume a: "ProviderRepository_get (ProviderRepository s) ''DatabaseService'' = Some d
      \<and> extractNextQueuedTask (db s) (now s) = Some queued
      \<and> Task_deserialize registry s queued = Inr task \<and> run task s = Some (Inl e, s', n)"
  then have "runTask registry queued s = Some (Inl e, s'\<lparr>db := deleteQueuedTask (db s') (record_id queued)\<rparr>)"
    by (simp add: runTask_run_throws)
  with a show "processQueue registry s = Some (Inl e, s'\<lparr>db := deleteQueuedTask (db s') (record_id queued)\<rparr>)"
    by (simp add: processQueue_def processQueue_loop_throws)
next
  show "record_id queued \<notin> record_id ` set (queued_tasks (deleteQueuedTask (db s') (record_id queued)))"
    by (rule deleteQueuedTask_gone)
qed

lemma two_queued_first:
  "extractNextQueuedTask (db two_queued) (now two_queued) =
     Some \<lparr>record_id = 1, task_name = ''Unknown'', arguments = ''[]'', added_at = 1,
           expires_at = None, priority = 0\<rparr>"
  by code_simp

lemma failing_queued_first:
  "extractNextQueuedTask (db failing_queued) (now failing_queued) =
     Some \<lparr>record_id = 1, task_name = ''FailingTask'', arguments = ''[]'', added_at = 1,
           expires_at = None, priority = 0\<rparr>"
  by code_simp

lemma JSON_parse_reviver_empty_array: "JSON_parse_reviver ''[]'' = Inr (JArray [])"
  by code_simp

lemma failing_queued_run:
  "run failing_task failing_queued = Some (Inl (Error ''boom''), failing_queued\<lparr>world := 1\<rparr>, 1)"
proof -
  let ?k = "task_key failing_task"
  have "getCache (db failing_queued) (now failing_queued) ?k = None"
    and "locksMap failing_queued ?k = None"
    by (simp_all add: failing_queued_def idle_def empty_db_def addQueuedTask_def getCache_def)
  then show ?thesis
    by (simp add: run_miss) (simp add: failing_task_def example_task_def failing_queued_def idle_def)
qed

theorem processQueue_stops_at_failure_witness:
  "outcome (processQueue example_registry two_queued) =
     Some (Inl (Error ''Task constructor not found: Unknown''),
           [\<lparr>record_id = 2, task_name = ''AnswerTask'', arguments = ''[]'', added_at = 2,
             expires_at = None, priority = 0\<rparr>], 0)
   \<and> outcome (processQueue example_registry failing_queued) = Some (Inl (Error ''boom''), [], 1)"
proof
  let ?first = "\<lparr>record_id = 1, task_name = ''Unknown'', arguments = ''[]'', added_at = 1,
                  expires_at = None, priority = 0\<rparr>"
  have "ProviderRepository_get (ProviderRepository two_queued) ''DatabaseService''
          = Some (Instance ''DatabaseService'' 1)
      \<and> extractNextQueuedTask (db two_queued) (now two_queued) = Some ?first
      \<and> Task_deserialize example_registry two_queued ?first
          = Inl (Error ''Task constructor not found: Unknown'')"
    by (simp add: two_queued_first)
       (simp add: two_queued_def idle_def ProviderRepository_get_def Task_deserialize_def
          example_registry_def)
  with processQueue_stops_at_failure [where s = two_queued and queued = ?first
      and registry = example_registry and d = "Instance ''DatabaseService'' 1"
      and e = "Error ''Task constructor not found: Unknown''"]
  have "processQueue example_registry two_queued =
          Some (Inl (Error ''Task constructor not found: Unknown''),
                two_queued\<lparr>db := deleteQueuedTask (db two_queued) (record_id ?first)\<rparr>)"
    by blast
  then show "outcome (processQueue example_registry two_queued) =
     Some (Inl (Error ''Task constructor not found: Unknown''),
           [\<lparr>record_id = 2, task_name = ''AnswerTask'', arguments = ''[]'', added_at = 2,
             expires_at = None, priority = 0\<rparr>], 0)"
    by (simp add: outcome_def two_queued_def idle_def empty_db_def addQueuedTask_def
        deleteQueuedTask_def toUnixSeconds_def)
next
  let ?row = "\<lparr>record_id = 1, task_name = ''FailingTask'', arguments = ''[]'', added_at = 1,
                expires_at = None, priority = 0\<rparr>"
  have "Task_deserialize example_registry failing_queued ?row = Inr failing_task"
    by (simp add: Task_deserialize_def example_registry_def JSON_parse_reviver_empty_array
        example_constructor_def Task_constructor_def ProviderRepository_get_def
        failing_queued_def idle_def failing_task_def example_task_def)
  then have "ProviderRepository_get (ProviderRepository failing_queued) ''DatabaseService''
          = Some (Instance ''DatabaseService'' 1)
      \<and> extractNextQueuedTask (db failing_queued) (now failing_queued) = Some ?row
      \<and> Task_deserialize example_registry failing_queued ?row = Inr failing_task
      \<and> run failing_task failing_queued = Some (Inl (Error ''boom''), failing_queued\<lparr>world := 1\<rparr>, 1)"
    by (simp add: failing_queued_first failing_queued_run)
       (simp add: failing_queued_def idle_def ProviderRepository_get_def)
  with processQueue_stops_at_failure [where s = failing_queued and queued = ?row
      and registry = example_registry and d = "Instance ''DatabaseService'' 1"
      and e = "Error ''boom''" and task = failing_task and s' = "failing_queued\<lparr>world := 1\<rparr>"
      and n = 1]
  have "processQueue example_registry failing_queued =
          Some (Inl (Error ''boom''),
                failing_queued\<lparr>world := 1, db := deleteQueuedTask (db (failing_queued\<lparr>world := 1\<rparr>)) (record_id ?row)\<rparr>)"
    by simp
  then show "outcome (processQueue example_registry failing_queued) = Some (Inl (Error ''boom''), [], 1)"
    by (simp add: outcome_def failing_queued_def idle_def empty_db_def addQueuedTask_def
        deleteQueuedTask_def toUnixSeconds_def)
qed

text \<open>
  The claim as stated fails: the pass over the two queued records ends at the first,
  whose class is not registered. \<^verbatim>\<open>processQueue\<close> rejects, the \<^verbatim>\<open>AnswerTask\<close> behind it
  is still queued and its body has not run (the world is unchanged). A pass over
  that record alone runs it and empties the queue.
\<close>

theorem processQueue_continue_counterexample:
  "outcome (processQueue example_registry two_queued) =
     Some (Inl (Error ''Task constructor not found: Unknown''),
           [\<lparr>record_id = 2, task_name = ''AnswerTask'', arguments = ''[]'', added_at = 2,
             expires_at = None, priority = 0\<rparr>], 0)
   \<and> outcome (processQueue example_registry (two_queued\<lparr>db := deleteQueuedTask (db two_queued) 1\<rparr>))
       = Some (Inr (), [], 1)"
  by code_simp

section \<open>Enqueue and run\<close>

text \<open>
  C7. \<^verbatim>\<open>enqueueTask\<close> inserts the serialized record and runs it at once, but the
  record it hands to \<^verbatim>\<open>runTask\<close> is the one \<^verbatim>\<open>serialize()\<close> made, whose \<^verbatim>\<open>id\<close> is 0; the
  id of the inserted row is only logged. \<^verbatim>\<open>runTask\<close> deletes row 0, and the inserted
  row (id 1 here) stays in the queue, after a run that succeeds and after a run
  that fails.
\<close>

theorem enqueueTask_row_not_deleted:
  "outcome (enqueueTask example_registry answer_task idle) =
     Some (Inr (JNumber 42),
           [\<lparr>record_id = 1, task_name = ''AnswerTask'', arguments = ''[]'', added_at = 5,
             expires_at = None, priority = 0\<rparr>], 1)
   \<and> outcome (enqueueTask example_registry failing_task idle) =
     Some (Inl (Error ''boom''),
           [\<lparr>record_id = 1, task_name = ''FailingTask'', arguments = ''[]'', added_at = 5,
             expires_at = None, priority = 0\<rparr>], 1)"
  by code_simp

section \<open>Waiting for the relays: the poll loop\<close>

lemma keys_differ: "CheckRelayStatus_key sha256 \<noteq> WaitForRelaysConnected_key sha256"
  by (simp add: CheckRelayStatus_key_def WaitForRelaysConnected_key_def)

lemma CheckRelayStatusTask_ok:
  assumes "poll_ready sha256 s"
  shows "\<exists>task. CheckRelayStatusTask sha256 s = Inr task \<and> task_key task = CheckRelayStatus_key sha256
           \<and> fn task = CheckRelayStatus_fn \<and> providers task \<noteq> [] \<and> expiry task = Date (now s + 1000)"
  using assms
  by (auto simp: poll_ready_def CheckRelayStatusTask_def Task_constructor_def ProviderRepository_get_def
      task_key_def CheckRelayStatus_key_def JsonArguments_def)

lemma JSON_stringify_bool: "JSON_stringify (JBool b) = Inr (Some (if b then ''true'' else ''false''))"
  by (simp add: JSON_stringify_def)

lemma poll:
  assumes "poll_ready sha256 s" and "CheckRelayStatusTask sha256 s = Inr task"
  shows "\<exists>s1. run task s = Some (Inr (JBool (areRelaysConnected s)), s1, 1)
           \<and> now s1 = now s
           \<and> probe_calls (world s1) = probe_calls (world s) + 1
           \<and> relayStatuses (world s1) = relayStatuses (world s)
           \<and> ProviderRepository s1 = ProviderRepository s
           \<and> locksMap s1 = locksMap s
           \<and> key_value_cache (db s1) (CheckRelayStatus_key sha256)
               = Some (if areRelaysConnected s then ''true'' else ''false'', Some (toUnixSeconds (now s + 1000)))"
proof -
  from CheckRelayStatusTask_ok [OF assms(1)] assms(2)
  have t: "task_key task = CheckRelayStatus_key sha256" "fn task = CheckRelayStatus_fn"
    "providers task \<noteq> []" "expiry task = Date (now s + 1000)"
    by auto
  from assms(1) have miss: "getCache (db s) (now s) (task_key task) = None"
    and free: "locksMap s (task_key task) = None"
    by (simp_all add: poll_ready_def t)
  from t(3) obtain p ps where ps: "providers task = p # ps" by (cases "providers task") auto
  show ?thesis
    unfolding run_miss [OF miss free]
    by (simp add: t ps CheckRelayStatus_fn_def areRelaysConnected_def JSON_stringify_bool setCache_def
        fun_upd_idem [of "locksMap s" "CheckRelayStatus_key sha256" None] free [unfolded t])
qed

lemma poll_ready_after_sleep:
  assumes "poll_ready sha256 s"
    and "now s1 = now s" and "ProviderRepository s1 = ProviderRepository s" and "locksMap s1 = locksMap s"
    and "key_value_cache (db s1) (CheckRelayStatus_key sha256) = Some (v, Some (toUnixSeconds (now s + 1000)))"
  shows "poll_ready sha256 (s1\<lparr>now := now s1 + 1000\<rparr>)"
  using assms by (simp add: poll_ready_def getCache_def not_expired_def)

lemma loop_not_connected:
  assumes "count < 5" and "poll_ready sha256 s" and "\<not> areRelaysConnected s"
  shows "\<exists>s2. WaitForRelaysConnected_loop sha256 count s = WaitForRelaysConnected_loop sha256 (count + 1) s2
           \<and> poll_ready sha256 s2 \<and> now s2 = now s + 1000
           \<and> probe_calls (world s2) = probe_calls (world s) + 1
           \<and> relayStatuses (world s2) = relayStatuses (world s)"
proof -
  from CheckRelayStatusTask_ok [OF assms(2)] obtain task where task: "CheckRelayStatusTask sha256 s = Inr task"
    by auto
  from poll [OF assms(2) task] obtain s1 where s1:
    "run task s = Some (Inr (JBool (areRelaysConnected s)), s1, 1)" "now s1 = now s"
    "probe_calls (world s1) = probe_calls (world s) + 1"
    "relayStatuses (world s1) = relayStatuses (world s)"
    "ProviderRepository s1 = ProviderRepository s" "locksMap s1 = locksMap s"
    "key_value_cache (db s1) (CheckRelayStatus_key sha256)
       = Some (if areRelaysConnected s then ''true'' else ''false'', Some (toUnixSeconds (now s + 1000)))"
    by auto
  have "WaitForRelaysConnected_loop sha256 count s
          = WaitForRelaysConnected_loop sha256 (count + 1) (s1\<lparr>now := now s1 + 1000\<rparr>)"
    by (subst WaitForRelaysConnected_loop.simps) (simp add: assms(1,3) task s1(1))
  moreover have "poll_ready sha256 (s1\<lparr>now := now s1 + 1000\<rparr>)"
    using poll_ready_after_sleep [OF assms(2) s1(2) s1(5) s1(6) s1(7)] .
  ultimately show ?thesis
    using s1 by (intro exI [of _ "s1\<lparr>now := now s1 + 1000\<rparr>"]) simp
qed

lemma loop_connected:
  assumes "count < 5" and "poll_ready sha256 s" and "areRelaysConnected s"
  shows "\<exists>s1. WaitForRelaysConnected_loop sha256 count s = Some (Inr JUndefined, s1)
           \<and> now s1 = now s \<and> probe_calls (world s1) = probe_calls (world s) + 1"
proof -
  from CheckRelayStatusTask_ok [OF assms(2)] obtain task where task: "CheckRelayStatusTask sha256 s = Inr task"
    by auto
  from poll [OF assms(2) task] obtain s1 where s1:
    "run task s = Some (Inr (JBool (areRelaysConnected s)), s1, 1)" "now s1 = now s"
    "probe_calls (world s1) = probe_calls (world s) + 1"
    by auto
  have "WaitForRelaysConnected_loop sha256 count s = Some (Inr JUndefined, s1)"
    by (subst WaitForRelaysConnected_loop.simps) (simp add: assms(1,3) task s1(1))
  with s1 show ?thesis by auto
qed

lemma loop_exhausted:
  "WaitForRelaysConnected_loop sha256 5 s = Some (Inl (Error ''Relays did not connect in time''), s)"
  by (subst WaitForRelaysConnected_loop.simps) simp


lemma areRelaysConnected_at:
  "relayStatuses (world s2) = relayStatuses (world s) \<Longrightarrow> now s2 = t
     \<Longrightarrow> areRelaysConnected s2 = areRelaysConnected (s\<lparr>now := t\<rparr>)"
  by (simp add: areRelaysConnected_def)

lemma loop_chain:
  assumes "count + j \<le> 5" and "poll_ready sha256 s"
    and "\<forall>i<j. \<not> areRelaysConnected (s\<lparr>now := now s + 1000 * int i\<rparr>)"
  shows "\<exists>s2. WaitForRelaysConnected_loop sha256 count s = WaitForRelaysConnected_loop sha256 (count + j) s2
           \<and> poll_ready sha256 s2 \<and> now s2 = now s + 1000 * int j
           \<and> probe_calls (world s2) = probe_calls (world s) + j
           \<and> relayStatuses (world s2) = relayStatuses (world s)"
  using assms
proof (induction j)
  case 0
  then show ?case by (intro exI [of _ s]) simp
next
  case (Suc j)
  then obtain s2 where s2:
    "WaitForRelaysConnected_loop sha256 count s = WaitForRelaysConnected_loop sha256 (count + j) s2"
    "poll_ready sha256 s2" "now s2 = now s + 1000 * int j"
    "probe_calls (world s2) = probe_calls (world s) + j"
    "relayStatuses (world s2) = relayStatuses (world s)"
    by auto
  from Suc.prems(3) have "\<not> areRelaysConnected (s\<lparr>now := now s + 1000 * int j\<rparr>)" by simp
  then have "\<not> areRelaysConnected s2"
    using areRelaysConnected_at [OF s2(5) s2(3)] by simp
  moreover from Suc.prems(1) have "count + j < 5" by simp
  ultimately obtain s3 where s3:
    "WaitForRelaysConnected_loop sha256 (count + j) s2 = WaitForRelaysConnected_loop sha256 (count + j + 1) s3"
    "poll_ready sha256 s3" "now s3 = now s2 + 1000"
    "probe_calls (world s3) = probe_calls (world s2) + 1"
    "relayStatuses (world s3) = relayStatuses (world s2)"
    using loop_not_connected [OF _ s2(2)] by blast
  show ?case
    using s2 s3 by (intro exI [of _ s3]) simp
qed

lemma loop_connects_after:
  assumes "j < 5" and "poll_ready sha256 s"
    and "\<forall>i<j. \<not> areRelaysConnected (s\<lparr>now := now s + 1000 * int i\<rparr>)"
    and "areRelaysConnected (s\<lparr>now := now s + 1000 * int j\<rparr>)"
  shows "\<exists>s'. WaitForRelaysConnected_loop sha256 0 s = Some (Inr JUndefined, s')
           \<and> now s' = now s + 1000 * int j \<and> probe_calls (world s') = probe_calls (world s) + j + 1"
proof -
  from loop_chain [of 0 j sha256 s] assms obtain s2 where s2:
    "WaitForRelaysConnected_loop sha256 0 s = WaitForRelaysConnected_loop sha256 j s2"
    "poll_ready sha256 s2" "now s2 = now s + 1000 * int j"
    "probe_calls (world s2) = probe_calls (world s) + j"
    "relayStatuses (world s2) = relayStatuses (world s)"
    by auto
  from assms(4) have "areRelaysConnected s2"
    using areRelaysConnected_at [OF s2(5) s2(3)] by simp
  from loop_connected [OF assms(1) s2(2) this] s2 show ?thesis by auto
qed

lemma loop_never_connects:
  assumes "poll_ready sha256 s"
    and "\<forall>i<5. \<not> areRelaysConnected (s\<lparr>now := now s + 1000 * int i\<rparr>)"
  shows "\<exists>s'. WaitForRelaysConnected_loop sha256 0 s = Some (Inl (Error ''Relays did not connect in time''), s')
           \<and> now s' = now s + 5000 \<and> probe_calls (world s') = probe_calls (world s) + 5"
proof -
  from loop_chain [of 0 5 sha256 s] assms obtain s2 where
    "WaitForRelaysConnected_loop sha256 0 s = WaitForRelaysConnected_loop sha256 5 s2"
    "now s2 = now s + 1000 * int 5" "probe_calls (world s2) = probe_calls (world s) + 5"
    by auto
  then show ?thesis by (simp add: loop_exhausted)
qed

lemma WaitForRelaysConnectedTask_ok:
  assumes "ProviderRepository_get (ProviderRepository s) ''DatabaseService'' = Some d"
  shows "\<exists>task. WaitForRelaysConnectedTask sha256 s = Inr task
           \<and> task_key task = WaitForRelaysConnected_key sha256
           \<and> fn task = WaitForRelaysConnected_fn sha256"
  using assms
  by (simp add: WaitForRelaysConnectedTask_def Task_constructor_def task_key_def
      WaitForRelaysConnected_key_def JsonArguments_def)



text \<open>
  C9. \<^verbatim>\<open>WaitForRelaysConnectedTask.run()\<close>, called where both providers are registered
  and neither task has a live cache row or an execution in flight: if the relays
  are not connected at the first two polls and connected at the third, one second
  apart, the call resolves after exactly 3 calls of the probe, 2 seconds after it
  started; if they are connected at none of the five polls, it rejects with
  \<^verbatim>\<open>Relays did not connect in time\<close> after exactly 5 calls of the probe (and five
  sleeps of one second).
\<close>

theorem WaitForRelaysConnected_polls:
  assumes "ProviderRepository_get (ProviderRepository s) ''DatabaseService'' = Some d"
    and "ProviderRepository_get (ProviderRepository s) ''RelayStatusesProvider'' = Some p"
    and "getCache (db s) (now s) (CheckRelayStatus_key sha256) = None"
    and "getCache (db s) (now s) (WaitForRelaysConnected_key sha256) = None"
    and "locksMap s (CheckRelayStatus_key sha256) = None"
    and "locksMap s (WaitForRelaysConnected_key sha256) = None"
  shows "\<exists>task. WaitForRelaysConnectedTask sha256 s = Inr task \<and>
     (\<not> areRelaysConnected s \<and> \<not> areRelaysConnected (s\<lparr>now := now s + 1000\<rparr>)
        \<and> areRelaysConnected (s\<lparr>now := now s + 2000\<rparr>)
      \<longrightarrow> (\<exists>s'. run task s = Some (Inr JUndefined, s', 1)
             \<and> probe_calls (world s') = probe_calls (world s) + 3 \<and> now s' = now s + 2000))
     \<and> (\<not> areRelaysConnected s \<and> \<not> areRelaysConnected (s\<lparr>now := now s + 1000\<rparr>)
        \<and> \<not> areRelaysConnected (s\<lparr>now := now s + 2000\<rparr>) \<and> \<not> areRelaysConnected (s\<lparr>now := now s + 3000\<rparr>)
        \<and> \<not> areRelaysConnected (s\<lparr>now := now s + 4000\<rparr>)
      \<longrightarrow> (\<exists>s'. run task s = Some (Inl (Error ''Relays did not connect in time''), s', 1)
             \<and> probe_calls (world s') = probe_calls (world s) + 5 \<and> now s' = now s + 5000))"
proof -
  let ?k = "WaitForRelaysConnected_key sha256"
  let ?s0 = "s\<lparr>locksMap := (locksMap s)(?k \<mapsto> Pending)\<rparr>"
  from WaitForRelaysConnectedTask_ok [OF assms(1)] obtain task where
    task: "WaitForRelaysConnectedTask sha256 s = Inr task" "task_key task = ?k"
      "fn task = WaitForRelaysConnected_fn sha256"
    by auto
  have ready: "poll_ready sha256 ?s0"
    using assms keys_differ [of sha256] by (simp add: poll_ready_def ProviderRepository_get_def)
  have at: "areRelaysConnected (?s0\<lparr>now := t\<rparr>) = areRelaysConnected (s\<lparr>now := t\<rparr>)" for t
    by (simp add: areRelaysConnected_def)
  have run: "run task s =
     (case WaitForRelaysConnected_loop sha256 0 ?s0 of
        None \<Rightarrow> None
      | Some (Inl e, s') \<Rightarrow> Some (Inl e, s'\<lparr>locksMap := (locksMap s')(?k := None)\<rparr>, 1)
      | Some (Inr data, s') \<Rightarrow>
          (case JSON_stringify data of
             Inl e \<Rightarrow> Some (Inl e, s'\<lparr>locksMap := (locksMap s')(?k := None)\<rparr>, 1)
           | Inr json \<Rightarrow>
               Some (Inr data,
                     s'\<lparr>db := setCache (db s') ?k json (expiry_arg (expiry task)),
                        locksMap := (locksMap s')(?k := None)\<rparr>, 1)))"
    using run_miss [of s task, unfolded task(2,3), OF assms(4,6)] by (simp add: WaitForRelaysConnected_fn_def)
  have connects: "\<exists>s'. run task s = Some (Inr JUndefined, s', 1)
             \<and> probe_calls (world s') = probe_calls (world s) + 3 \<and> now s' = now s + 2000"
    if c: "\<not> areRelaysConnected s \<and> \<not> areRelaysConnected (s\<lparr>now := now s + 1000\<rparr>)
        \<and> areRelaysConnected (s\<lparr>now := now s + 2000\<rparr>)"
  proof -
    have "\<forall>i<2. \<not> areRelaysConnected (?s0\<lparr>now := now ?s0 + 1000 * int i\<rparr>)"
    proof (intro allI impI)
      fix i :: nat
      assume "i < 2"
      then have "i = 0 \<or> i = 1" by arith
      then show "\<not> areRelaysConnected (?s0\<lparr>now := now ?s0 + 1000 * int i\<rparr>)"
        using c by (auto simp: areRelaysConnected_def)
    qed
    moreover have "areRelaysConnected (?s0\<lparr>now := now ?s0 + 1000 * int 2\<rparr>)"
      using c by (simp add: at)
    ultimately obtain s' where
      "WaitForRelaysConnected_loop sha256 0 ?s0 = Some (Inr JUndefined, s')"
      "now s' = now ?s0 + 1000 * int 2" "probe_calls (world s') = probe_calls (world ?s0) + 2 + 1"
      using loop_connects_after [of 2 sha256 ?s0] ready by auto
    then show ?thesis by (simp add: run JSON_stringify_def)
  qed
  have never: "\<exists>s'. run task s = Some (Inl (Error ''Relays did not connect in time''), s', 1)
             \<and> probe_calls (world s') = probe_calls (world s) + 5 \<and> now s' = now s + 5000"
    if c: "\<not> areRelaysConnected s \<and> \<not> areRelaysConnected (s\<lparr>now := now s + 1000\<rparr>)
        \<and> \<not> areRelaysConnected (s\<lparr>now := now s + 2000\<rparr>) \<and> \<not> areRelaysConnected (s\<lparr>now := now s + 3000\<rparr>)
        \<and> \<not> areRelaysConnected (s\<lparr>now := now s + 4000\<rparr>)"
  proof -
    have "\<forall>i<5. \<not> areRelaysConnected (?s0\<lparr>now := now ?s0 + 1000 * int i\<rparr>)"
    proof (intro allI impI)
      fix i :: nat
      assume "i < 5"
      then have "i = 0 \<or> i = 1 \<or> i = 2 \<or> i = 3 \<or> i = 4" by arith
      then show "\<not> areRelaysConnected (?s0\<lparr>now := now ?s0 + 1000 * int i\<rparr>)"
        using c by (auto simp: areRelaysConnected_def)
    qed
    then obtain s' where
      "WaitForRelaysConnected_loop sha256 0 ?s0 = Some (Inl (Error ''Relays did not connect in time''), s')"
      "now s' = now ?s0 + 5000" "probe_calls (world s') = probe_calls (world ?s0) + 5"
      using loop_never_connects [of sha256 ?s0] ready by auto
    then show ?thesis by (simp add: run)
  qed
  from task(1) connects never show ?thesis by blast
qed


theorem WaitForRelaysConnected_polls_witness:
  "(\<exists>task s'. WaitForRelaysConnectedTask plain_digest relays_connecting = Inr task
       \<and> run task relays_connecting = Some (Inr JUndefined, s', 1)
       \<and> probe_calls (world s') = 3 \<and> now s' = 7500)
   \<and> (\<exists>task s'. WaitForRelaysConnectedTask plain_digest relays_down = Inr task
       \<and> run task relays_down = Some (Inl (Error ''Relays did not connect in time''), s', 1)
       \<and> probe_calls (world s') = 5 \<and> now s' = 10500)"
proof
  have h: "ProviderRepository_get (ProviderRepository relays_connecting) ''DatabaseService''
             = Some (Instance ''DatabaseService'' 1)"
    "ProviderRepository_get (ProviderRepository relays_connecting) ''RelayStatusesProvider''
             = Some (Instance ''RelayStatusesProvider'' 2)"
    "getCache (db relays_connecting) (now relays_connecting) (CheckRelayStatus_key plain_digest) = None"
    "getCache (db relays_connecting) (now relays_connecting) (WaitForRelaysConnected_key plain_digest) = None"
    "locksMap relays_connecting (CheckRelayStatus_key plain_digest) = None"
    "locksMap relays_connecting (WaitForRelaysConnected_key plain_digest) = None"
    by (simp_all add: relays_connecting_def relay_process_def ProviderRepository_get_def
        getCache_def empty_db_def)
  have c: "\<not> areRelaysConnected relays_connecting
      \<and> \<not> areRelaysConnected (relays_connecting\<lparr>now := now relays_connecting + 1000\<rparr>)
      \<and> areRelaysConnected (relays_connecting\<lparr>now := now relays_connecting + 2000\<rparr>)"
    by (simp add: areRelaysConnected_def relays_connecting_def relay_process_def)
  from WaitForRelaysConnected_polls [OF h] c
  show "\<exists>task s'. WaitForRelaysConnectedTask plain_digest relays_connecting = Inr task
       \<and> run task relays_connecting = Some (Inr JUndefined, s', 1)
       \<and> probe_calls (world s') = 3 \<and> now s' = 7500"
    by (auto simp: relays_connecting_def relay_process_def)
next
  have h: "ProviderRepository_get (ProviderRepository relays_down) ''DatabaseService''
             = Some (Instance ''DatabaseService'' 1)"
    "ProviderRepository_get (ProviderRepository relays_down) ''RelayStatusesProvider''
             = Some (Instance ''RelayStatusesProvider'' 2)"
    "getCache (db relays_down) (now relays_down) (CheckRelayStatus_key plain_digest) = None"
    "getCache (db relays_down) (now relays_down) (WaitForRelaysConnected_key plain_digest) = None"
    "locksMap relays_down (CheckRelayStatus_key plain_digest) = None"
    "locksMap relays_down (WaitForRelaysConnected_key plain_digest) = None"
    by (simp_all add: relays_down_def relay_process_def ProviderRepository_get_def
        getCache_def empty_db_def)
  have c: "\<not> areRelaysConnected relays_down
      \<and> \<not> areRelaysConnected (relays_down\<lparr>now := now relays_down + 1000\<rparr>)
      \<and> \<not> areRelaysConnected (relays_down\<lparr>now := now relays_down + 2000\<rparr>)
      \<and> \<not> areRelaysConnected (relays_down\<lparr>now := now relays_down + 3000\<rparr>)
      \<and> \<not> areRelaysConnected (relays_down\<lparr>now := now relays_down + 4000\<rparr>)"
    by (simp add: areRelaysConnected_def relays_down_def relay_process_def)
  from WaitForRelaysConnected_polls [OF h] c
  show "\<exists>task s'. WaitForRelaysConnectedTask plain_digest relays_down = Inr task
       \<and> run task relays_down = Some (Inl (Error ''Relays did not connect in time''), s', 1)
       \<and> probe_calls (world s') = 5 \<and> now s' = 10500"
    by (auto simp: relays_down_def relay_process_def)
qed

section \<open>The argument fingerprint\<close>












text \<open>
  The flattened text that is digested for the first of these tuples, and a tuple
  with another number, whose text and digest differ.
\<close>

lemma hash_text_example:
  "JSON_stringify_replacer (JObject (flattenObject
      (JArray [JObject [(''onDone'', JFunction 1), (''amount'', JBigInt 5)], JNumber 7])))
     = [CHR ''{'', CHR 0x22, CHR ''1'', CHR 0x22, CHR '':'', CHR ''7'', CHR '','',
        CHR 0x22, CHR ''0'', CHR ''.'', CHR ''o'', CHR ''n'', CHR ''D'', CHR ''o'', CHR ''n'', CHR ''e'', CHR 0x22,
        CHR '':'', CHR ''n'', CHR ''u'', CHR ''l'', CHR ''l'', CHR '','',
        CHR 0x22, CHR ''0'', CHR ''.'', CHR ''a'', CHR ''m'', CHR ''o'', CHR ''u'', CHR ''n'', CHR ''t'', CHR 0x22,
        CHR '':'', CHR 0x22, CHR ''B'', CHR ''i'', CHR ''g'', CHR ''I'', CHR ''n'', CHR ''t'', CHR ''('',
        CHR ''5'', CHR '')'', CHR 0x22, CHR ''}'']"
  by code_simp

lemma hash_sensitive_example:
  "JsonArguments_hash plain_digest [JNumber 7] \<noteq> JsonArguments_hash plain_digest [JNumber 8]"
  by code_simp

section \<open>Deduplication of concurrent calls\<close>

lemma consistent_fresh: "consistent fresh_process"
  by (simp add: consistent_def registered_def owners_registered_def owners_distinct_def fresh_process_def)

lemma set_pc_simps [simp]:
  "database (set_pc i p s) = database s" "time (set_pc i p s) = time s"
  "inflight (set_pc i p s) = inflight s" "executions (set_pc i p s) = executions s"
  "length (calls (set_pc i p s)) = length (calls s)"
  by (simp_all add: set_pc_def)

lemma set_pc_nth:
  "i < length (calls s) \<Longrightarrow> j < length (calls s) \<Longrightarrow>
     calls (set_pc i p s) ! j = (if j = i then (calls s ! i)\<lparr>call_pc := p\<rparr> else calls s ! j)"
  by (simp add: set_pc_def nth_list_update)

text \<open>A call that moves between points where it owns nothing, or keeps what it owns.\<close>

lemma consistent_set_pc_same:
  assumes "consistent s" and "i < length (calls s)"
    and "owned p = owned (call_pc (calls s ! i))"
    and "\<And>q. p \<noteq> AwaitBody q \<Longrightarrow> call_pc (calls s ! i) = AwaitBody q \<Longrightarrow> snd (executions s ! q) \<noteq> Pending"
  shows "consistent (set_pc i p s)"
  using assms
  unfolding consistent_def registered_def owners_registered_def owners_distinct_def
  apply (simp add: set_pc_nth)
  apply (intro conjI allI impI)
  apply (metis owned.simps(1) option.inject)+
  done


lemma consistent_database [simp]: "consistent (s\<lparr>database := d\<rparr>) = consistent s"
  by (simp add: consistent_def registered_def owners_registered_def owners_distinct_def)

lemma consistent_time [simp]: "consistent (s\<lparr>time := t\<rparr>) = consistent s"
  by (simp add: consistent_def registered_def owners_registered_def owners_distinct_def)

lemma consistent_call:
  assumes "consistent s"
  shows "consistent (s\<lparr>calls := calls s @ [\<lparr>call_key = key, call_expiry = e, call_pc = AwaitGetCache\<rparr>]\<rparr>)"
  using assms
  unfolding consistent_def registered_def owners_registered_def owners_distinct_def
  by (auto simp: nth_append less_Suc_eq)

lemma consistent_settle:
  assumes "consistent s" and "p < length (executions s)"
  shows "consistent (s\<lparr>executions := (executions s)[p := (fst (executions s ! p), Settled r)]\<rparr>)"
  using assms
  unfolding consistent_def registered_def owners_registered_def owners_distinct_def
  by (auto simp: nth_list_update)


lemma consistent_start:
  assumes "consistent s" and "i < length (calls s)"
    and "owned (call_pc (calls s ! i)) = None"
    and "inflight s (call_key (calls s ! i)) = None"
  shows "consistent (set_pc i (AwaitBody (length (executions s)))
           (s\<lparr>executions := executions s @ [(call_key (calls s ! i), Pending)],
              inflight := (inflight s)(call_key (calls s ! i) \<mapsto> length (executions s))\<rparr>))"
proof -
  let ?k = "call_key (calls s ! i)"
  let ?n = "length (executions s)"
  let ?s' = "set_pc i (AwaitBody ?n)
           (s\<lparr>executions := executions s @ [(?k, Pending)], inflight := (inflight s)(?k \<mapsto> ?n)\<rparr>)"
  from assms(1) have r: "registered s" and o: "owners_registered s" and d: "owners_distinct s"
    by (simp_all add: consistent_def)
  have nth: "calls ?s' ! j = (if j = i then (calls s ! i)\<lparr>call_pc := AwaitBody ?n\<rparr> else calls s ! j)"
    if "j < length (calls s)" for j
    using that assms(2) by (simp add: set_pc_def nth_list_update)
  have "registered ?s'"
    unfolding registered_def
  proof (intro allI impI)
    fix p
    assume p: "p < length (executions ?s')" and pend: "snd (executions ?s' ! p) = Pending"
    show "inflight ?s' (fst (executions ?s' ! p)) = Some p"
    proof (cases "p < ?n")
      case True
      with pend have "snd (executions s ! p) = Pending" by (simp add: nth_append)
      with r True have reg: "inflight s (fst (executions s ! p)) = Some p" by (simp add: registered_def)
      with assms(4) have "fst (executions s ! p) \<noteq> ?k" by auto
      with reg True show ?thesis by (simp add: nth_append)
    next
      case False
      with p have "p = ?n" by simp
      then show ?thesis by simp
    qed
  qed
  moreover have "owners_registered ?s'"
    unfolding owners_registered_def
  proof (intro allI impI)
    fix j p
    assume j: "j < length (calls ?s')" and own: "owned (call_pc (calls ?s' ! j)) = Some p"
    from j have j': "j < length (calls s)" by simp
    show "p < length (executions ?s') \<and> fst (executions ?s' ! p) = call_key (calls ?s' ! j)
        \<and> inflight ?s' (call_key (calls ?s' ! j)) = Some p
        \<and> (call_pc (calls ?s' ! j) \<noteq> AwaitBody p \<longrightarrow> snd (executions ?s' ! p) \<noteq> Pending)"
    proof (cases "j = i")
      case True
      have ci: "calls ?s' ! i = (calls s ! i)\<lparr>call_pc := AwaitBody ?n\<rparr>"
        using nth [OF assms(2)] by simp
      with own True have p: "p = ?n" by simp
      show ?thesis unfolding True p ci by simp
    next
      case False
      with own j' have own': "owned (call_pc (calls s ! j)) = Some p" by (simp add: nth)
      with o j' have *: "p < ?n" "fst (executions s ! p) = call_key (calls s ! j)"
        "inflight s (call_key (calls s ! j)) = Some p"
        "call_pc (calls s ! j) \<noteq> AwaitBody p \<longrightarrow> snd (executions s ! p) \<noteq> Pending"
        by (simp_all add: owners_registered_def)
      from *(3) assms(4) have "call_key (calls s ! j) \<noteq> ?k" by auto
      with * False j' show ?thesis by (simp add: nth nth_append)
    qed
  qed
  moreover have "owners_distinct ?s'"
    unfolding owners_distinct_def
  proof (intro allI impI)
    fix j l p
    assume j: "j < length (calls ?s')" and l: "l < length (calls ?s')"
      and own: "owned (call_pc (calls ?s' ! j)) = Some p \<and> owned (call_pc (calls ?s' ! l)) = Some p"
    from j l have j': "j < length (calls s)" and l': "l < length (calls s)" by simp_all
    have old: "q < ?n" if "m < length (calls s)" "owned (call_pc (calls s ! m)) = Some q" for m q
      using o that by (simp add: owners_registered_def)
    show "j = l"
    proof (cases "j = i"; cases "l = i")
      assume "j = i" "l = i" then show ?thesis by simp
    next
      assume a: "j = i" "l \<noteq> i"
      have "calls ?s' ! j = (calls s ! i)\<lparr>call_pc := AwaitBody ?n\<rparr>" "calls ?s' ! l = calls s ! l"
        using nth [OF j'] nth [OF l'] a by simp_all
      with own have "p = ?n" "owned (call_pc (calls s ! l)) = Some p" by auto
      with old [OF l'] show ?thesis by auto
    next
      assume a: "j \<noteq> i" "l = i"
      have "calls ?s' ! l = (calls s ! i)\<lparr>call_pc := AwaitBody ?n\<rparr>" "calls ?s' ! j = calls s ! j"
        using nth [OF j'] nth [OF l'] a by simp_all
      with own have "p = ?n" "owned (call_pc (calls s ! j)) = Some p" by auto
      with old [OF j'] show ?thesis by auto
    next
      assume a: "j \<noteq> i" "l \<noteq> i"
      with own j' l' have "owned (call_pc (calls s ! j)) = Some p \<and> owned (call_pc (calls s ! l)) = Some p"
        by (simp add: nth)
      with d j' l' show ?thesis unfolding owners_distinct_def by blast
    qed
  qed
  ultimately show ?thesis by (simp add: consistent_def)
qed

lemma consistent_release:
  assumes "consistent s" and "i < length (calls s)"
    and "owned (call_pc (calls s ! i)) = Some p"
    and "snd (executions s ! p) \<noteq> Pending"
  shows "consistent (finally_return i r s)"
proof -
  let ?k = "call_key (calls s ! i)"
  let ?s' = "finally_return i r s"
  from assms(1) have reg: "registered s" and o: "owners_registered s" and d: "owners_distinct s"
    by (simp_all add: consistent_def)
  from o assms(2,3) have mine: "p < length (executions s)" "fst (executions s ! p) = ?k"
    "inflight s ?k = Some p"
    by (simp_all add: owners_registered_def)
  have nth: "calls ?s' ! j = (if j = i then (calls s ! i)\<lparr>call_pc := Returned r\<rparr> else calls s ! j)"
    if "j < length (calls s)" for j
    using that assms(2) by (simp add: finally_return_def set_pc_def nth_list_update)
  have [simp]: "executions ?s' = executions s" "length (calls ?s') = length (calls s)"
    "inflight ?s' = (inflight s)(?k := None)"
    by (simp_all add: finally_return_def)
  have "registered ?s'"
    unfolding registered_def
  proof (intro allI impI)
    fix q
    assume q: "q < length (executions ?s')" and pend: "snd (executions ?s' ! q) = Pending"
    with reg have rq: "inflight s (fst (executions s ! q)) = Some q" by (simp add: registered_def)
    have "fst (executions s ! q) \<noteq> ?k"
    proof
      assume "fst (executions s ! q) = ?k"
      with rq mine(3) have "q = p" by simp
      with pend assms(4) show False by simp
    qed
    with rq show "inflight ?s' (fst (executions ?s' ! q)) = Some q" by simp
  qed
  moreover have "owners_registered ?s'"
    unfolding owners_registered_def
  proof (intro allI impI)
    fix j q
    assume j: "j < length (calls ?s')" and own: "owned (call_pc (calls ?s' ! j)) = Some q"
    from j have j': "j < length (calls s)" by simp
    from own j' have ji: "j \<noteq> i" by (auto simp: nth)
    with own j' have own': "owned (call_pc (calls s ! j)) = Some q" by (simp add: nth)
    with o j' have *: "q < length (executions s)" "fst (executions s ! q) = call_key (calls s ! j)"
      "inflight s (call_key (calls s ! j)) = Some q"
      "call_pc (calls s ! j) \<noteq> AwaitBody q \<longrightarrow> snd (executions s ! q) \<noteq> Pending"
      by (simp_all add: owners_registered_def)
    have "call_key (calls s ! j) \<noteq> ?k"
    proof
      assume "call_key (calls s ! j) = ?k"
      with *(3) mine(3) have "q = p" by simp
      with d j' assms(2,3) own' have "j = i" unfolding owners_distinct_def by blast
      with ji show False by simp
    qed
    with * ji j' show "q < length (executions ?s') \<and> fst (executions ?s' ! q) = call_key (calls ?s' ! j)
        \<and> inflight ?s' (call_key (calls ?s' ! j)) = Some q
        \<and> (call_pc (calls ?s' ! j) \<noteq> AwaitBody q \<longrightarrow> snd (executions ?s' ! q) \<noteq> Pending)"
      by (simp add: nth)
  qed
  moreover have "owners_distinct ?s'"
    unfolding owners_distinct_def
  proof (intro allI impI)
    fix j l q
    assume j: "j < length (calls ?s')" and l: "l < length (calls ?s')"
      and own: "owned (call_pc (calls ?s' ! j)) = Some q \<and> owned (call_pc (calls ?s' ! l)) = Some q"
    from j l have j': "j < length (calls s)" and l': "l < length (calls s)" by simp_all
    from own j' l' have "j \<noteq> i" "l \<noteq> i" by (auto simp: nth)
    with own j' l' have "owned (call_pc (calls s ! j)) = Some q \<and> owned (call_pc (calls s ! l)) = Some q"
      by (simp add: nth)
    with d j' l' show "j = l" unfolding owners_distinct_def by blast
  qed
  ultimately show ?thesis by (simp add: consistent_def)
qed


lemma consistent_resume:
  assumes "consistent s" and "i < length (calls s)" and "resume i s = Some s'"
  shows "consistent s'"
proof (cases "call_pc (calls s ! i)")
  case AwaitGetCache
  with assms(3) show ?thesis by (simp add: resume_def Let_def)
next
  case (GotCache cached)
  show ?thesis
  proof (cases cached)
    case (Some v)
    with GotCache assms(3) have "s' = set_pc i (Returned (JSON_parse v)) s" by (simp add: resume_def Let_def)
    with GotCache show ?thesis using consistent_set_pc_same [OF assms(1,2)] by simp
  next
    case None
    show ?thesis
    proof (cases "inflight s (call_key (calls s ! i))")
      case (Some lock)
      with None GotCache assms(3) have "s' = set_pc i (AwaitLock lock) s" by (simp add: resume_def Let_def)
      with GotCache show ?thesis using consistent_set_pc_same [OF assms(1,2)] by simp
    next
      case free: None
      with None GotCache assms(3) have "s' = set_pc i (AwaitBody (length (executions s)))
           (s\<lparr>executions := executions s @ [(call_key (calls s ! i), Pending)],
              inflight := (inflight s)(call_key (calls s ! i) \<mapsto> length (executions s))\<rparr>)"
        by (simp add: resume_def Let_def)
      with GotCache free show ?thesis using consistent_start [OF assms(1,2)] by simp
    qed
  qed
next
  case (AwaitLock lock)
  with assms(3) obtain r where "s' = set_pc i (Returned r) s"
    by (auto simp: resume_def Let_def split: promise.splits)
  with AwaitLock show ?thesis using consistent_set_pc_same [OF assms(1,2)] by simp
next
  case (AwaitBody p)
  with assms(3) obtain r where r: "snd (executions s ! p) = Settled r"
    by (auto simp: resume_def Let_def split: promise.splits)
  show ?thesis
  proof (cases r)
    case (Inl e)
    with r AwaitBody assms(3) have "s' = finally_return i (Inl e) s" by (simp add: resume_def Let_def)
    with r AwaitBody show ?thesis using consistent_release [OF assms(1,2), of p] by simp
  next
    case (Inr data)
    show ?thesis
    proof (cases "JSON_stringify data")
      case (Inl e)
      with Inr r AwaitBody assms(3) have "s' = finally_return i (Inl e) s" by (simp add: resume_def Let_def)
      with r AwaitBody show ?thesis using consistent_release [OF assms(1,2), of p] by simp
    next
      case json: (Inr json)
      with Inr r AwaitBody assms(3) have s': "s' = set_pc i (AwaitSetCache p data json) s"
        by (simp add: resume_def Let_def)
      have "consistent (set_pc i (AwaitSetCache p data json) s)"
      proof (rule consistent_set_pc_same [OF assms(1,2)])
        show "owned (AwaitSetCache p data json) = owned (call_pc (calls s ! i))"
          by (simp add: AwaitBody)
      next
        fix q
        assume "call_pc (calls s ! i) = AwaitBody q"
        with AwaitBody r show "snd (executions s ! q) \<noteq> Pending" by simp
      qed
      with s' show ?thesis by simp
    qed
  qed
next
  case (AwaitSetCache p data json)
  with assms(3) show ?thesis by (simp add: resume_def Let_def)
next
  case (StoredCache p data)
  with assms(3) have s': "s' = finally_return i (Inr data) s" by (simp add: resume_def Let_def)
  from assms(1,2) StoredCache have "snd (executions s ! p) \<noteq> Pending"
    by (simp add: consistent_def owners_registered_def)
  with s' StoredCache show ?thesis using consistent_release [OF assms(1,2), of p] by simp
next
  case (Returned r)
  with assms(3) show ?thesis by (simp add: resume_def Let_def)
qed

lemma consistent_exec:
  assumes "consistent s" and "exec a s = Some s'"
  shows "consistent s'"
proof (cases a)
  case (Call key e)
  with assms show ?thesis by (auto simp: exec_def consistent_call)
next
  case (Answer i)
  with assms(2) have i: "i < length (calls s)" "call_pc (calls s ! i) = AwaitGetCache"
    and s': "s' = set_pc i (GotCache (getCache (database s) (time s) (call_key (calls s ! i)))) s"
    by (auto simp: exec_def split: if_splits)
  from i s' show ?thesis using consistent_set_pc_same [OF assms(1) i(1)] by simp
next
  case (Write i)
  with assms(2) obtain p data json where i: "i < length (calls s)"
    "call_pc (calls s ! i) = AwaitSetCache p data json"
    and s': "s' = set_pc i (StoredCache p data)
                    (s\<lparr>database := setCache (database s) (call_key (calls s ! i)) json
                                      (expiry_arg (call_expiry (calls s ! i)))\<rparr>)"
    by (auto simp: exec_def split: if_splits pc.splits)
  let ?s1 = "s\<lparr>database := setCache (database s) (call_key (calls s ! i)) json
                                      (expiry_arg (call_expiry (calls s ! i)))\<rparr>"
  have "consistent ?s1" using assms(1) by simp
  from consistent_set_pc_same [OF this, of i "StoredCache p data"] i s' show ?thesis by simp
next
  case (Settle p r)
  with assms show ?thesis by (auto simp: exec_def consistent_settle split: if_splits)
next
  case (Resume i)
  with assms show ?thesis by (auto simp: exec_def consistent_resume split: if_splits)
next
  case (Tick d)
  with assms show ?thesis by (auto simp: exec_def split: if_splits)
qed

lemma consistent_execs: "consistent s \<Longrightarrow> execs as s = Some s' \<Longrightarrow> consistent s'"
  by (induction as arbitrary: s) (auto split: option.splits dest: consistent_exec)

lemma filter_at_most_one:
  assumes "\<And>i j. i < length xs \<Longrightarrow> j < length xs \<Longrightarrow> P (xs ! i) \<Longrightarrow> P (xs ! j) \<Longrightarrow> i = j"
  shows "length (filter P xs) \<le> 1"
  using assms
proof (induction xs)
  case Nil
  then show ?case by simp
next
  case (Cons x xs)
  have tail: "length (filter P xs) \<le> 1"
  proof (rule Cons.IH)
    fix i j
    assume "i < length xs" "j < length xs" "P (xs ! i)" "P (xs ! j)"
    with Cons.prems [of "Suc i" "Suc j"] show "i = j" by simp
  qed
  show ?case
  proof (cases "P x")
    case True
    have "\<not> P y" if "y \<in> set xs" for y
    proof
      assume "P y"
      from that obtain j where "j < length xs" "xs ! j = y" by (auto simp: in_set_conv_nth)
      with Cons.prems [of 0 "Suc j"] True \<open>P y\<close> show False by simp
    qed
    then have "filter P xs = []" by (simp add: filter_empty_conv)
    with True show ?thesis by simp
  next
    case False
    with tail show ?thesis by simp
  qed
qed

lemma consistent_executing: "consistent s \<Longrightarrow> executing s k \<le> 1"
  unfolding executing_def
proof (rule filter_at_most_one)
  fix i j
  assume c: "consistent s" and i: "i < length (executions s)" and j: "j < length (executions s)"
    and pi: "fst (executions s ! i) = k \<and> snd (executions s ! i) = Pending"
    and pj: "fst (executions s ! j) = k \<and> snd (executions s ! j) = Pending"
  from c have "registered s" by (simp add: consistent_def)
  with i j pi pj have "inflight s k = Some i" "inflight s k = Some j"
    by (auto simp: registered_def)
  then show "i = j" by simp
qed

text \<open>
  In every state that the process reaches from its start, whatever the order of the
  events, at most one body is executing for a key.
\<close>

lemma at_most_one_body_in_flight:
  "execs as fresh_process = Some s \<Longrightarrow> executing s k \<le> 1"
  using consistent_execs [OF consistent_fresh] consistent_executing by blast


text \<open>
  A call that resumes from a cache miss and finds an execution registered for its
  key starts no body: it awaits the registered promise, and when that has settled
  it returns its result or throws its error.
\<close>

lemma resume_finds_registered:
  assumes "call_pc (calls s ! i) = GotCache None" and "inflight s (call_key (calls s ! i)) = Some p"
  shows "resume i s = Some (set_pc i (AwaitLock p) s)"
    and "executions (set_pc i (AwaitLock p) s) = executions s"
  using assms by (simp_all add: resume_def Let_def)

lemma resume_registered_settled:
  assumes "call_pc (calls s ! i) = AwaitLock p" and "snd (executions s ! p) = Settled r"
  shows "resume i s = Some (set_pc i (Returned r) s)"
  using assms by (simp add: resume_def Let_def)

lemma prompt_resume_shares_execution:
  "observe (execs prompt_resume fresh_process)
     = Some (1, [Returned (Inr (JNumber 42)), Returned (Inr (JNumber 42))])"
  by code_simp

text \<open>
  When \<^verbatim>\<open>JSON.stringify\<close> of the result throws, the call that started the body throws
  that error, and the call that awaited the registered promise returns the result.
\<close>

lemma bigint_result_differs:
  "observe (execs bigint_result fresh_process)
     = Some (1, [Returned (Inl (TypeError ''Do not know how to serialize a BigInt'')),
                 Returned (Inr (JBigInt 1))])"
  by code_simp

text \<open>
  C2. The guarantee fails on the schedule \<open>late_resume\<close>: the second call is made
  while the body of the first executes, but it resumes from its awaited
  \<^verbatim>\<open>getCache\<close> (a miss) only after the first call has removed its entry of
  \<^verbatim>\<open>locksMap\<close>; it finds nothing registered and starts the body again. Two bodies are
  started for two concurrent calls: the first call has returned 42, the second is
  awaiting its own execution.
\<close>

theorem late_resume_starts_body_twice:
  "observe (execs late_resume fresh_process)
     = Some (2, [Returned (Inr (JNumber 42)), AwaitBody 1])"
  by code_simp


end
